theory Spec2Isabelle
  imports Complex_Main
begin

section \<open>The LULESH communication routines (examples/LULESH/lulesh-comm.cc)\<close>

text \<open>
  The five routines \<open>CommRecv\<close>, \<open>CommSend\<close>, \<open>CommSBN\<close>, \<open>CommSyncPosVel\<close> and
  \<open>CommMonoQ\<close> are embedded as state transformers on a record of the \<open>Domain\<close> members
  they touch. The plain MPI build (the \<open>#else\<close> branches) is the one modelled: there the
  request slot of every call is written out (\<open>recvRequest[pmsg+emsg+cmsg]\<close>); the MPL and
  EMPI builds push the same calls, in the same order, onto a request pool.

  \<^item> \<open>Index_t\<close> and \<open>Int_t\<close> are modelled as \<open>int\<close>: overflow is outside the model.
  \<^item> \<open>Real_t\<close> is \<open>float\<close> or \<open>double\<close> (line 85 tests \<open>sizeof(Real_t) == 4\<close>). A value of
    \<open>Real_t\<close> is modelled by the real number it denotes (infinities and NaN are outside
    the model); assignments copy it exactly. The one arithmetic operation of the file, the
    \<open>+=\<close> of \<open>CommSBN\<close>, rounds: the addition of \<open>Real_t\<close> is a parameter \<open>radd\<close> of the
    model, and \<open>add_binary64\<close> is that addition for \<open>double\<close>.
  \<^item> An array (\<open>commDataSend\<close>, \<open>commDataRecv\<close>, a field of the mesh) is a function from
    its index; the code checks no bound.
  \<^item> Every transport call is appended to a log, together with the boundary flags its
    guarding \<open>if\<close> tests.
\<close>

subsection \<open>Data\<close>

text \<open>The six booleans \<open>rowMin .. planeMax\<close> computed at the top of every routine.\<close>

datatype flag = RowMin | RowMax | ColMin | ColMax | PlaneMin | PlaneMax

text \<open>
  \<open>Domain_member\<close> is a pointer to an accessor \<open>Real_t& (Domain::*)(Index_t)\<close>. The
  accessors named in this file are listed; \<open>M_other\<close> stands for the remaining ones
  (the force and mass fields the caller passes to \<open>CommSend\<close> and \<open>CommSBN\<close>).
  Distinct accessors denote distinct storage.
\<close>

datatype Domain_member =
  M_x | M_y | M_z | M_xd | M_yd | M_zd
  | M_delv_xi | M_delv_eta | M_delv_zeta
  | M_other nat

datatype request = MPI_REQUEST_NULL | Request nat

record Domain =
  numRanks :: int
  tp :: int
  rowLoc :: int
  colLoc :: int
  planeLoc :: int
  sizeX :: int
  sizeY :: int
  sizeZ :: int
  numElem :: int
  maxPlaneSize :: int
  maxEdgeSize :: int
  commDataSend :: "int \<Rightarrow> real"
  commDataRecv :: "int \<Rightarrow> real"
  recvRequest :: "int \<Rightarrow> request"
  sendRequest :: "int \<Rightarrow> request"
  member :: "Domain_member \<Rightarrow> int \<Rightarrow> real"

text \<open>
  One logged transport call: \<open>MPI_Irecv\<close> or \<open>MPI_Isend\<close> with its buffer offset, element
  count, peer rank, tag and request slot, or \<open>MPI_Wait\<close> on a request slot (count, peer and
  tag are then 0). \<open>c_guard\<close> lists the boundary flags tested by the \<open>if\<close> around the call.
\<close>

datatype call_kind = Irecv | Isend | Wait | Waitall

record call =
  c_kind :: call_kind
  c_guard :: "flag list"
  c_offset :: int
  c_count :: int
  c_peer :: int
  c_tag :: int
  c_req :: int

text \<open>The running state of a routine: the domain, the three message counters, the log.\<close>

record comm_state =
  dom :: Domain
  pmsg :: int
  emsg :: int
  cmsg :: int
  calls :: "call list"

subsection \<open>Boundary flags and loops\<close>

text \<open>
  Lines 112-131 (and their copies in the other routines): every flag starts \<open>true\<close> and is
  cleared when the domain sits at that extreme of the grid. \<open>CommSBN\<close> keeps the flags in
  \<open>Index_t\<close> variables holding 0 or 1 and combines them with \<open>&\<close> and \<open>|\<close>; on such values
  these are \<open>\<and>\<close> and \<open>\<or>\<close>.
\<close>

fun boundaryFlag :: "Domain \<Rightarrow> flag \<Rightarrow> bool" where
  "boundaryFlag d RowMin = (rowLoc d \<noteq> 0)"
| "boundaryFlag d RowMax = (rowLoc d \<noteq> tp d - 1)"
| "boundaryFlag d ColMin = (colLoc d \<noteq> 0)"
| "boundaryFlag d ColMax = (colLoc d \<noteq> tp d - 1)"
| "boundaryFlag d PlaneMin = (planeLoc d \<noteq> 0)"
| "boundaryFlag d PlaneMax = (planeLoc d \<noteq> tp d - 1)"

text \<open>The conjunction of the flags a guard tests; \<open>fl\<close> holds the six local booleans.\<close>

definition holds :: "(flag \<Rightarrow> bool) \<Rightarrow> flag list \<Rightarrow> bool" where
  "holds fl g = list_all fl g"

text \<open>\<open>for (Index_t i=0; i<n; ++i) body\<close>.\<close>

definition for_loop :: "int \<Rightarrow> (int \<Rightarrow> 's \<Rightarrow> 's) \<Rightarrow> 's \<Rightarrow> 's" where
  "for_loop n body s = fold (\<lambda>i. body (int i)) [0..<nat n] s"

text \<open>Statements in sequence.\<close>

definition seq :: "('s \<Rightarrow> 's) list \<Rightarrow> 's \<Rightarrow> 's" where
  "seq steps s = fold (\<lambda>step. step) steps s"

definition init_state :: "Domain \<Rightarrow> comm_state" where
  "init_state d = \<lparr>dom = d, pmsg = 0, emsg = 0, cmsg = 0, calls = []\<rparr>"

text \<open>Appending one transport call to the log.\<close>

definition log_call ::
  "call_kind \<Rightarrow> flag list \<Rightarrow> int \<Rightarrow> int \<Rightarrow> int \<Rightarrow> int \<Rightarrow> int
    \<Rightarrow> 'a comm_state_scheme \<Rightarrow> 'a comm_state_scheme" where
  "log_call kind g off cnt peer msgType slot s =
     s\<lparr>calls := calls s @ [\<lparr>c_kind = kind, c_guard = g, c_offset = off, c_count = cnt,
                            c_peer = peer, c_tag = msgType, c_req = slot\<rparr>]\<rparr>"

subsection \<open>Boundary regions\<close>

text \<open>
  The loops over one field of one face or edge. \<open>Run n idx\<close> is the single loop
  \<open>for (i<n) buf[i] .. field(idx i)\<close>, after which the buffer address advances by \<open>n\<close>;
  \<open>Grid cnt n1 n2 bidx fidx\<close> is the nested loop
  \<open>for (i<n1) for (j<n2) buf[bidx i j] .. field(fidx i j)\<close>, after which the address
  advances by \<open>cnt\<close> (the \<open>sendCount\<close> or \<open>opCount\<close> of the block). The action receives
  the buffer index and the field index of every iteration.
\<close>

datatype region =
  Run int "int \<Rightarrow> int"
  | Grid int int int "int \<Rightarrow> int \<Rightarrow> int" "int \<Rightarrow> int \<Rightarrow> int"

fun count :: "region \<Rightarrow> int" where
  "count (Run n idx) = n"
| "count (Grid cnt n1 n2 bidx fidx) = cnt"

fun region_loop :: "region \<Rightarrow> (int \<Rightarrow> int \<Rightarrow> 's \<Rightarrow> 's) \<Rightarrow> 's \<Rightarrow> 's" where
  "region_loop (Run n idx) act = for_loop n (\<lambda>i. act i (idx i))"
| "region_loop (Grid cnt n1 n2 bidx fidx) act =
     for_loop n1 (\<lambda>i. for_loop n2 (\<lambda>j. act (bidx i j) (fidx i j)))"

text \<open>
  The loops of the 6 faces and 12 edges, by the flags the block's guard tests.
  \<open>CommSend\<close> (lines 689-1114), \<open>CommSBN\<close> (1339-1716) and \<open>CommSyncPosVel\<close> (1921-2299)
  use the same expressions, block for block. Any other guard gives the empty loop.
\<close>

definition region_of :: "int \<Rightarrow> int \<Rightarrow> int \<Rightarrow> flag list \<Rightarrow> region" where
  "region_of dx dy dz g =
    (if g = [PlaneMin] then Run (dx * dy) (\<lambda>i. i)
     else if g = [PlaneMax] then Run (dx * dy) (\<lambda>i. dx * dy * (dz - 1) + i)
     else if g = [RowMin] then Grid (dx * dz) dz dx (\<lambda>i j. i * dx + j) (\<lambda>i j. i * dx * dy + j)
     else if g = [RowMax] then Grid (dx * dz) dz dx (\<lambda>i j. i * dx + j) (\<lambda>i j. dx * (dy - 1) + i * dx * dy + j)
     else if g = [ColMin] then Grid (dy * dz) dz dy (\<lambda>i j. i * dy + j) (\<lambda>i j. i * dx * dy + j * dx)
     else if g = [ColMax] then Grid (dy * dz) dz dy (\<lambda>i j. i * dy + j) (\<lambda>i j. dx - 1 + i * dx * dy + j * dx)
     else if g = [RowMin, ColMin] then Run dz (\<lambda>i. i * dx * dy)
     else if g = [RowMin, PlaneMin] then Run dx (\<lambda>i. i)
     else if g = [ColMin, PlaneMin] then Run dy (\<lambda>i. i * dx)
     else if g = [RowMax, ColMax] then Run dz (\<lambda>i. dx * dy - 1 + i * dx * dy)
     else if g = [RowMax, PlaneMax] then Run dx (\<lambda>i. dx * (dy - 1) + dx * dy * (dz - 1) + i)
     else if g = [ColMax, PlaneMax] then Run dy (\<lambda>i. dx * dy * (dz - 1) + dx - 1 + i * dx)
     else if g = [RowMax, ColMin] then Run dz (\<lambda>i. dx * (dy - 1) + i * dx * dy)
     else if g = [RowMin, PlaneMax] then Run dx (\<lambda>i. dx * dy * (dz - 1) + i)
     else if g = [ColMin, PlaneMax] then Run dy (\<lambda>i. dx * dy * (dz - 1) + i * dx)
     else if g = [RowMin, ColMax] then Run dz (\<lambda>i. dx - 1 + i * dx * dy)
     else if g = [RowMax, PlaneMin] then Run dx (\<lambda>i. dx * (dy - 1) + i)
     else if g = [ColMax, PlaneMin] then Run dy (\<lambda>i. dx - 1 + i * dx)
     else Run 0 (\<lambda>i. 0))"

text \<open>The index \<open>idx\<close> of the 8 corner blocks (0 for any other guard).\<close>

definition corner_of :: "int \<Rightarrow> int \<Rightarrow> int \<Rightarrow> flag list \<Rightarrow> int" where
  "corner_of dx dy dz g =
    (if g = [RowMin, ColMin, PlaneMin] then 0
     else if g = [RowMin, ColMin, PlaneMax] then dx * dy * (dz - 1)
     else if g = [RowMin, ColMax, PlaneMin] then dx - 1
     else if g = [RowMin, ColMax, PlaneMax] then dx * dy * (dz - 1) + (dx - 1)
     else if g = [RowMax, ColMin, PlaneMin] then dx * (dy - 1)
     else if g = [RowMax, ColMin, PlaneMax] then dx * dy * (dz - 1) + dx * (dy - 1)
     else if g = [RowMax, ColMax, PlaneMin] then dx * dy - 1
     else if g = [RowMax, ColMax, PlaneMax] then dx * dy * dz - 1
     else 0)"

text \<open>
  The loop over the fields around a face or edge: \<open>body\<close> runs with the accessor
  \<open>fieldData[fi]\<close> and the current buffer address, then the address advances by \<open>cnt\<close>
  (\<open>destAddr += sendCount\<close>, \<open>srcAddr += opCount\<close>). The final address is returned too.
\<close>

definition field_loop ::
  "int \<Rightarrow> (int \<Rightarrow> Domain_member) \<Rightarrow> int \<Rightarrow> (Domain_member \<Rightarrow> int \<Rightarrow> Domain \<Rightarrow> Domain)
    \<Rightarrow> int \<Rightarrow> Domain \<Rightarrow> Domain \<times> int" where
  "field_loop xferFields fieldData cnt body addr d =
     for_loop xferFields (\<lambda>fi (d, addr). (body (fieldData fi) addr d, addr + cnt)) (d, addr)"

text \<open>
  The loop over the fields of a corner: \<open>comBuf[fi]\<close> against \<open>(domain.*fieldData[fi])(idx)\<close>.
\<close>

definition corner_loop ::
  "int \<Rightarrow> (int \<Rightarrow> Domain_member) \<Rightarrow> (Domain_member \<Rightarrow> int \<Rightarrow> int \<Rightarrow> int \<Rightarrow> Domain \<Rightarrow> Domain)
    \<Rightarrow> int \<Rightarrow> int \<Rightarrow> Domain \<Rightarrow> Domain" where
  "corner_loop xferFields fieldData act comBuf idx d =
     for_loop xferFields (\<lambda>fi. act (fieldData fi) comBuf fi idx) d"

text \<open>
  The three assignments: \<open>destAddr[b] = (domain.*src)(k)\<close> of \<open>CommSend\<close>,
  \<open>(domain.*dest)(k) += srcAddr[b]\<close> of \<open>CommSBN\<close> and \<open>(domain.*dest)(k) = srcAddr[b]\<close> of
  \<open>CommSyncPosVel\<close> and \<open>CommMonoQ\<close>. The \<open>+=\<close> is the addition \<open>radd\<close> of \<open>Real_t\<close>.
\<close>

definition gather :: "Domain_member \<Rightarrow> int \<Rightarrow> int \<Rightarrow> int \<Rightarrow> Domain \<Rightarrow> Domain" where
  "gather src destAddr b k d =
     d\<lparr>commDataSend := (commDataSend d)(destAddr + b := member d src k)\<rparr>"

definition accumulate ::
  "(real \<Rightarrow> real \<Rightarrow> real) \<Rightarrow> Domain_member \<Rightarrow> int \<Rightarrow> int \<Rightarrow> int \<Rightarrow> Domain \<Rightarrow> Domain" where
  "accumulate radd dest srcAddr b k d =
     d\<lparr>member := (member d)(dest := (member d dest)
            (k := radd (member d dest k) (commDataRecv d (srcAddr + b))))\<rparr>"

definition overwrite :: "Domain_member \<Rightarrow> int \<Rightarrow> int \<Rightarrow> int \<Rightarrow> Domain \<Rightarrow> Domain" where
  "overwrite dest srcAddr b k d =
     d\<lparr>member := (member d)(dest := (member d dest)(k := commDataRecv d (srcAddr + b)))\<rparr>"

text \<open>The unpack loops of a consuming block, field by field over one region.\<close>

definition unpack_block ::
  "(Domain_member \<Rightarrow> int \<Rightarrow> int \<Rightarrow> int \<Rightarrow> Domain \<Rightarrow> Domain) \<Rightarrow> int \<Rightarrow> (int \<Rightarrow> Domain_member)
    \<Rightarrow> region \<Rightarrow> int \<Rightarrow> Domain \<Rightarrow> Domain" where
  "unpack_block act xferFields fieldData r srcAddr d =
     fst (field_loop xferFields fieldData (count r)
            (\<lambda>dest srcAddr. region_loop r (act dest srcAddr)) srcAddr d)"

subsection \<open>CommRecv\<close>

text \<open>
  The three kinds of block of \<open>CommRecv\<close>. A plane block posts into
  \<open>commDataRecv[pmsg * maxPlaneComm]\<close> with request slot \<open>pmsg\<close> and increments \<open>pmsg\<close>;
  an edge block uses \<open>pmsg * maxPlaneComm + emsg * maxEdgeComm\<close> and slot \<open>pmsg+emsg\<close>;
  a corner block adds \<open>cmsg * CACHE_COHERENCE_PAD_REAL\<close> and uses slot \<open>pmsg+emsg+cmsg\<close>.
  \<open>en\<close> is the \<open>doRecv\<close> conjunct of the guard (\<open>True\<close> where the guard has none).
  The macro \<open>CACHE_COHERENCE_PAD_REAL\<close> comes from \<open>lulesh.h\<close> and is the parameter \<open>pad\<close>.
  The request handle stored in the slot is the position of the call in the log.
\<close>

definition post_recv :: "flag list \<Rightarrow> int \<Rightarrow> int \<Rightarrow> int \<Rightarrow> int \<Rightarrow> int \<Rightarrow> comm_state \<Rightarrow> comm_state" where
  "post_recv g off cnt fromRank msgType slot s =
     log_call Irecv g off cnt fromRank msgType slot
       (s\<lparr>dom := (dom s)\<lparr>recvRequest := (recvRequest (dom s))(slot := Request (length (calls s)))\<rparr>\<rparr>)"

definition recv_plane ::
  "(flag \<Rightarrow> bool) \<Rightarrow> int \<Rightarrow> int \<Rightarrow> flag list \<Rightarrow> bool \<Rightarrow> int \<Rightarrow> int \<Rightarrow> comm_state \<Rightarrow> comm_state" where
  "recv_plane fl msgType maxPlaneComm g en fromRank recvCount s =
     (if holds fl g \<and> en
      then (post_recv g (pmsg s * maxPlaneComm) recvCount fromRank msgType (pmsg s) s)
             \<lparr>pmsg := pmsg s + 1\<rparr>
      else s)"

definition recv_edge ::
  "(flag \<Rightarrow> bool) \<Rightarrow> int \<Rightarrow> int \<Rightarrow> int \<Rightarrow> flag list \<Rightarrow> bool \<Rightarrow> int \<Rightarrow> int \<Rightarrow> comm_state \<Rightarrow> comm_state" where
  "recv_edge fl msgType maxPlaneComm maxEdgeComm g en fromRank recvCount s =
     (if holds fl g \<and> en
      then (post_recv g (pmsg s * maxPlaneComm + emsg s * maxEdgeComm) recvCount fromRank
              msgType (pmsg s + emsg s) s)
             \<lparr>emsg := emsg s + 1\<rparr>
      else s)"

definition recv_corner ::
  "(flag \<Rightarrow> bool) \<Rightarrow> int \<Rightarrow> int \<Rightarrow> int \<Rightarrow> int \<Rightarrow> flag list \<Rightarrow> bool \<Rightarrow> int \<Rightarrow> int
    \<Rightarrow> comm_state \<Rightarrow> comm_state" where
  "recv_corner fl msgType maxPlaneComm maxEdgeComm pad g en fromRank recvCount s =
     (if holds fl g \<and> en
      then (post_recv g (pmsg s * maxPlaneComm + emsg s * maxEdgeComm + cmsg s * pad) recvCount
              fromRank msgType (pmsg s + emsg s + cmsg s) s)
             \<lparr>cmsg := cmsg s + 1\<rparr>
      else s)"

text \<open>Lines 133-135: \<open>recvRequest[i] = MPI_REQUEST_NULL\<close> for \<open>i < 26\<close>.\<close>

definition clear_recvRequest :: "comm_state \<Rightarrow> comm_state" where
  "clear_recvRequest s =
     for_loop 26 (\<lambda>i s. s\<lparr>dom := (dom s)\<lparr>recvRequest := (recvRequest (dom s))(i := MPI_REQUEST_NULL)\<rparr>\<rparr>) s"

text \<open>
  \<open>CommRecv\<close>, lines 71-612. \<open>myRank\<close> is what \<open>MPI_Comm_rank\<close> returns. The result is the
  final state: the domain (only \<open>recvRequest\<close> changes) and the receives posted, in order.
\<close>

definition CommRecv ::
  "int \<Rightarrow> int \<Rightarrow> Domain \<Rightarrow> int \<Rightarrow> int \<Rightarrow> int \<Rightarrow> int \<Rightarrow> int \<Rightarrow> bool \<Rightarrow> bool \<Rightarrow> comm_state" where
  "CommRecv pad myRank domain msgType xferFields dx dy dz doRecv planeOnly =
   (if numRanks domain = 1 then init_state domain
    else
     let maxPlaneComm = xferFields * maxPlaneSize domain;
         maxEdgeComm = xferFields * maxEdgeSize domain;
         t = tp domain;
         fl = boundaryFlag domain;
         plane = recv_plane fl msgType maxPlaneComm;
         edge = recv_edge fl msgType maxPlaneComm maxEdgeComm;
         corner = recv_corner fl msgType maxPlaneComm maxEdgeComm pad
     in seq
       ([clear_recvRequest,
         plane [PlaneMin] doRecv (myRank - t * t) (dx * dy * xferFields),
         plane [PlaneMax] True (myRank + t * t) (dx * dy * xferFields),
         plane [RowMin] doRecv (myRank - t) (dx * dz * xferFields),
         plane [RowMax] True (myRank + t) (dx * dz * xferFields),
         plane [ColMin] doRecv (myRank - 1) (dy * dz * xferFields),
         plane [ColMax] True (myRank + 1) (dy * dz * xferFields)]
        @ (if \<not> planeOnly then
        [edge [RowMin, ColMin] doRecv (myRank - t - 1) (dz * xferFields),
         edge [RowMin, PlaneMin] doRecv (myRank - t * t - t) (dx * xferFields),
         edge [ColMin, PlaneMin] doRecv (myRank - t * t - 1) (dy * xferFields),
         edge [RowMax, ColMax] True (myRank + t + 1) (dz * xferFields),
         edge [RowMax, PlaneMax] True (myRank + t * t + t) (dx * xferFields),
         edge [ColMax, PlaneMax] True (myRank + t * t + 1) (dy * xferFields),
         edge [RowMax, ColMin] True (myRank + t - 1) (dz * xferFields),
         edge [RowMin, PlaneMax] True (myRank + t * t - t) (dx * xferFields),
         edge [ColMin, PlaneMax] True (myRank + t * t - 1) (dy * xferFields),
         edge [RowMin, ColMax] doRecv (myRank - t + 1) (dz * xferFields),
         edge [RowMax, PlaneMin] doRecv (myRank - t * t + t) (dx * xferFields),
         edge [ColMax, PlaneMin] doRecv (myRank - t * t + 1) (dy * xferFields),
         corner [RowMin, ColMin, PlaneMin] doRecv (myRank - t * t - t - 1) xferFields,
         corner [RowMin, ColMin, PlaneMax] True (myRank + t * t - t - 1) xferFields,
         corner [RowMin, ColMax, PlaneMin] doRecv (myRank - t * t - t + 1) xferFields,
         corner [RowMin, ColMax, PlaneMax] True (myRank + t * t - t + 1) xferFields,
         corner [RowMax, ColMin, PlaneMin] doRecv (myRank - t * t + t - 1) xferFields,
         corner [RowMax, ColMin, PlaneMax] True (myRank + t * t + t - 1) xferFields,
         corner [RowMax, ColMax, PlaneMin] doRecv (myRank - t * t + t + 1) xferFields,
         corner [RowMax, ColMax, PlaneMax] True (myRank + t * t + t + 1) xferFields]
        else []))
       (init_state domain))"

subsection \<open>CommSend\<close>

text \<open>
  A send block packs the region field by field into \<open>commDataSend\<close> from \<open>destAddr\<close> on,
  rewinds \<open>destAddr\<close> by \<open>xferFields*sendCount\<close> and calls \<open>MPI_Isend\<close> on it; \<open>sendCount\<close>
  is the \<open>count\<close> of the region. The buffer
  address and the request slot follow the counters as in \<open>CommRecv\<close>.
\<close>

definition post_send :: "flag list \<Rightarrow> int \<Rightarrow> int \<Rightarrow> int \<Rightarrow> int \<Rightarrow> int \<Rightarrow> comm_state \<Rightarrow> comm_state" where
  "post_send g off cnt toRank msgType slot s =
     log_call Isend g off cnt toRank msgType slot
       (s\<lparr>dom := (dom s)\<lparr>sendRequest := (sendRequest (dom s))(slot := Request (length (calls s)))\<rparr>\<rparr>)"

definition pack_send ::
  "int \<Rightarrow> int \<Rightarrow> (int \<Rightarrow> Domain_member) \<Rightarrow> region \<Rightarrow> flag list \<Rightarrow> int \<Rightarrow> int \<Rightarrow> int
    \<Rightarrow> comm_state \<Rightarrow> comm_state" where
  "pack_send msgType xferFields fieldData r g toRank base slot s =
     (case field_loop xferFields fieldData (count r)
             (\<lambda>src destAddr. region_loop r (gather src destAddr)) base (dom s) of
        (d, destAddr) \<Rightarrow>
          post_send g (destAddr - xferFields * count r) (xferFields * count r) toRank
            msgType slot (s\<lparr>dom := d\<rparr>))"

definition send_plane ::
  "(flag \<Rightarrow> bool) \<Rightarrow> int \<Rightarrow> int \<Rightarrow> (int \<Rightarrow> Domain_member) \<Rightarrow> int \<Rightarrow> int \<Rightarrow> int \<Rightarrow> int
    \<Rightarrow> flag list \<Rightarrow> bool \<Rightarrow> int \<Rightarrow> comm_state \<Rightarrow> comm_state" where
  "send_plane fl msgType xferFields fieldData dx dy dz maxPlaneComm g en toRank s =
     (if holds fl g \<and> en
      then (pack_send msgType xferFields fieldData (region_of dx dy dz g) g toRank
              (pmsg s * maxPlaneComm) (pmsg s) s)
             \<lparr>pmsg := pmsg s + 1\<rparr>
      else s)"

definition send_edge ::
  "(flag \<Rightarrow> bool) \<Rightarrow> int \<Rightarrow> int \<Rightarrow> (int \<Rightarrow> Domain_member) \<Rightarrow> int \<Rightarrow> int \<Rightarrow> int \<Rightarrow> int \<Rightarrow> int
    \<Rightarrow> flag list \<Rightarrow> bool \<Rightarrow> int \<Rightarrow> comm_state \<Rightarrow> comm_state" where
  "send_edge fl msgType xferFields fieldData dx dy dz maxPlaneComm maxEdgeComm g en toRank s =
     (if holds fl g \<and> en
      then (pack_send msgType xferFields fieldData (region_of dx dy dz g) g toRank
              (pmsg s * maxPlaneComm + emsg s * maxEdgeComm) (pmsg s + emsg s) s)
             \<lparr>emsg := emsg s + 1\<rparr>
      else s)"

definition send_corner ::
  "(flag \<Rightarrow> bool) \<Rightarrow> int \<Rightarrow> int \<Rightarrow> (int \<Rightarrow> Domain_member) \<Rightarrow> int \<Rightarrow> int \<Rightarrow> int \<Rightarrow> int \<Rightarrow> int
    \<Rightarrow> int \<Rightarrow> flag list \<Rightarrow> bool \<Rightarrow> int \<Rightarrow> comm_state \<Rightarrow> comm_state" where
  "send_corner fl msgType xferFields fieldData dx dy dz maxPlaneComm maxEdgeComm pad g en toRank s =
     (if holds fl g \<and> en
      then (let comBuf = pmsg s * maxPlaneComm + emsg s * maxEdgeComm + cmsg s * pad;
                d = corner_loop xferFields fieldData gather comBuf (corner_of dx dy dz g) (dom s)
            in post_send g comBuf xferFields toRank msgType (pmsg s + emsg s + cmsg s)
                 (s\<lparr>dom := d\<rparr>))
             \<lparr>cmsg := cmsg s + 1\<rparr>
      else s)"

text \<open>Lines 656-658: \<open>sendRequest[i] = MPI_REQUEST_NULL\<close> for \<open>i < 26\<close>.\<close>

definition clear_sendRequest :: "comm_state \<Rightarrow> comm_state" where
  "clear_sendRequest s =
     for_loop 26 (\<lambda>i s. s\<lparr>dom := (dom s)\<lparr>sendRequest := (sendRequest (dom s))(i := MPI_REQUEST_NULL)\<rparr>\<rparr>) s"

text \<open>Line 1284: \<open>MPI_Waitall(26, domain.sendRequest, status)\<close>.\<close>

definition waitall_send :: "comm_state \<Rightarrow> comm_state" where
  "waitall_send s = log_call Waitall [] 0 26 0 0 0 s"

text \<open>\<open>CommSend\<close>, lines 616-1286.\<close>

definition CommSend ::
  "int \<Rightarrow> int \<Rightarrow> Domain \<Rightarrow> int \<Rightarrow> int \<Rightarrow> (int \<Rightarrow> Domain_member) \<Rightarrow> int \<Rightarrow> int \<Rightarrow> int \<Rightarrow> bool \<Rightarrow> bool
    \<Rightarrow> comm_state" where
  "CommSend pad myRank domain msgType xferFields fieldData dx dy dz doSend planeOnly =
   (if numRanks domain = 1 then init_state domain
    else
     let maxPlaneComm = xferFields * maxPlaneSize domain;
         maxEdgeComm = xferFields * maxEdgeSize domain;
         t = tp domain;
         fl = boundaryFlag domain;
         plane = send_plane fl msgType xferFields fieldData dx dy dz maxPlaneComm;
         edge = send_edge fl msgType xferFields fieldData dx dy dz maxPlaneComm maxEdgeComm;
         corner = send_corner fl msgType xferFields fieldData dx dy dz maxPlaneComm maxEdgeComm pad
     in seq
       ([clear_sendRequest]
        @ (if fl PlaneMin \<or> fl PlaneMax then
        [plane [PlaneMin] True (myRank - t * t),
         plane [PlaneMax] doSend (myRank + t * t)] else [])
        @ (if fl RowMin \<or> fl RowMax then
        [plane [RowMin] True (myRank - t),
         plane [RowMax] doSend (myRank + t)] else [])
        @ (if fl ColMin \<or> fl ColMax then
        [plane [ColMin] True (myRank - 1),
         plane [ColMax] doSend (myRank + 1)] else [])
        @ (if \<not> planeOnly then
        [edge [RowMin, ColMin] True (myRank - t - 1),
         edge [RowMin, PlaneMin] True (myRank - t * t - t),
         edge [ColMin, PlaneMin] True (myRank - t * t - 1),
         edge [RowMax, ColMax] doSend (myRank + t + 1),
         edge [RowMax, PlaneMax] doSend (myRank + t * t + t),
         edge [ColMax, PlaneMax] doSend (myRank + t * t + 1),
         edge [RowMax, ColMin] doSend (myRank + t - 1),
         edge [RowMin, PlaneMax] doSend (myRank + t * t - t),
         edge [ColMin, PlaneMax] doSend (myRank + t * t - 1),
         edge [RowMin, ColMax] True (myRank - t + 1),
         edge [RowMax, PlaneMin] True (myRank - t * t + t),
         edge [ColMax, PlaneMin] True (myRank - t * t + 1),
         corner [RowMin, ColMin, PlaneMin] True (myRank - t * t - t - 1),
         corner [RowMin, ColMin, PlaneMax] doSend (myRank + t * t - t - 1),
         corner [RowMin, ColMax, PlaneMin] True (myRank - t * t - t + 1),
         corner [RowMin, ColMax, PlaneMax] doSend (myRank + t * t - t + 1),
         corner [RowMax, ColMin, PlaneMin] True (myRank - t * t + t - 1),
         corner [RowMax, ColMin, PlaneMax] doSend (myRank + t * t + t - 1),
         corner [RowMax, ColMax, PlaneMin] True (myRank - t * t + t + 1),
         corner [RowMax, ColMax, PlaneMax] doSend (myRank + t * t + t + 1)]
        else [])
        @ [waitall_send])
       (init_state domain))"

subsection \<open>CommSBN and CommSyncPosVel\<close>

text \<open>
  A consuming block computes the buffer address of its message, waits on the request slot
  and unpacks field by field, the address advancing by the \<open>count\<close> of the region (\<open>opCount\<close>); \<open>act\<close> is \<open>accumulate radd\<close> in \<open>CommSBN\<close> and \<open>overwrite\<close> in
  \<open>CommSyncPosVel\<close>. The logged \<open>Wait\<close> carries the buffer address the block reads from.
  What a completed receive delivered is the content of \<open>commDataRecv\<close> in the domain.
\<close>

definition wait_recv :: "flag list \<Rightarrow> int \<Rightarrow> int \<Rightarrow> 'a comm_state_scheme \<Rightarrow> 'a comm_state_scheme" where
  "wait_recv g srcAddr slot s = log_call Wait g srcAddr 0 0 0 slot s"

definition unpack_recv ::
  "int \<Rightarrow> (int \<Rightarrow> Domain_member) \<Rightarrow> (Domain_member \<Rightarrow> int \<Rightarrow> int \<Rightarrow> int \<Rightarrow> Domain \<Rightarrow> Domain)
    \<Rightarrow> region \<Rightarrow> flag list \<Rightarrow> int \<Rightarrow> int \<Rightarrow> comm_state \<Rightarrow> comm_state" where
  "unpack_recv xferFields fieldData act r g srcAddr slot s =
     (wait_recv g srcAddr slot s)
       \<lparr>dom := unpack_block act xferFields fieldData r srcAddr (dom s)\<rparr>"

definition consume_plane ::
  "(flag \<Rightarrow> bool) \<Rightarrow> int \<Rightarrow> (int \<Rightarrow> Domain_member) \<Rightarrow> (Domain_member \<Rightarrow> int \<Rightarrow> int \<Rightarrow> int \<Rightarrow> Domain \<Rightarrow> Domain)
    \<Rightarrow> int \<Rightarrow> int \<Rightarrow> int \<Rightarrow> int \<Rightarrow> flag list \<Rightarrow> bool \<Rightarrow> comm_state \<Rightarrow> comm_state" where
  "consume_plane fl xferFields fieldData act dx dy dz maxPlaneComm g en s =
     (if holds fl g \<and> en
      then (unpack_recv xferFields fieldData act (region_of dx dy dz g) g
              (pmsg s * maxPlaneComm) (pmsg s) s)
             \<lparr>pmsg := pmsg s + 1\<rparr>
      else s)"

definition consume_edge ::
  "(flag \<Rightarrow> bool) \<Rightarrow> int \<Rightarrow> (int \<Rightarrow> Domain_member) \<Rightarrow> (Domain_member \<Rightarrow> int \<Rightarrow> int \<Rightarrow> int \<Rightarrow> Domain \<Rightarrow> Domain)
    \<Rightarrow> int \<Rightarrow> int \<Rightarrow> int \<Rightarrow> int \<Rightarrow> int \<Rightarrow> flag list \<Rightarrow> bool \<Rightarrow> comm_state \<Rightarrow> comm_state" where
  "consume_edge fl xferFields fieldData act dx dy dz maxPlaneComm maxEdgeComm g en s =
     (if holds fl g \<and> en
      then (unpack_recv xferFields fieldData act (region_of dx dy dz g) g
              (pmsg s * maxPlaneComm + emsg s * maxEdgeComm) (pmsg s + emsg s) s)
             \<lparr>emsg := emsg s + 1\<rparr>
      else s)"

definition consume_corner ::
  "(flag \<Rightarrow> bool) \<Rightarrow> int \<Rightarrow> (int \<Rightarrow> Domain_member) \<Rightarrow> (Domain_member \<Rightarrow> int \<Rightarrow> int \<Rightarrow> int \<Rightarrow> Domain \<Rightarrow> Domain)
    \<Rightarrow> int \<Rightarrow> int \<Rightarrow> int \<Rightarrow> int \<Rightarrow> int \<Rightarrow> int \<Rightarrow> flag list \<Rightarrow> bool \<Rightarrow> comm_state \<Rightarrow> comm_state" where
  "consume_corner fl xferFields fieldData act dx dy dz maxPlaneComm maxEdgeComm pad g en s =
     (if holds fl g \<and> en
      then (let comBuf = pmsg s * maxPlaneComm + emsg s * maxEdgeComm + cmsg s * pad
            in (wait_recv g comBuf (pmsg s + emsg s + cmsg s) s)
                 \<lparr>dom := corner_loop xferFields fieldData act comBuf (corner_of dx dy dz g) (dom s)\<rparr>)
             \<lparr>cmsg := cmsg s + 1\<rparr>
      else s)"

text \<open>
  The traversal shared by \<open>CommSBN\<close> (lines 1339-1860, every block unguarded:
  \<open>doRecv = True\<close>) and \<open>CommSyncPosVel\<close> (lines 1921-2444).
\<close>

definition consume_all ::
  "int \<Rightarrow> Domain \<Rightarrow> int \<Rightarrow> (int \<Rightarrow> Domain_member) \<Rightarrow> (Domain_member \<Rightarrow> int \<Rightarrow> int \<Rightarrow> int \<Rightarrow> Domain \<Rightarrow> Domain)
    \<Rightarrow> bool \<Rightarrow> comm_state" where
  "consume_all pad domain xferFields fieldData act doRecv =
     (let maxPlaneComm = xferFields * maxPlaneSize domain;
          maxEdgeComm = xferFields * maxEdgeSize domain;
          dx = sizeX domain + 1;
          dy = sizeY domain + 1;
          dz = sizeZ domain + 1;
          fl = boundaryFlag domain;
          plane = consume_plane fl xferFields fieldData act dx dy dz maxPlaneComm;
          edge = consume_edge fl xferFields fieldData act dx dy dz maxPlaneComm maxEdgeComm;
          corner = consume_corner fl xferFields fieldData act dx dy dz maxPlaneComm maxEdgeComm pad
      in seq
       ((if fl PlaneMin \<or> fl PlaneMax then
        [plane [PlaneMin] doRecv,
         plane [PlaneMax] True] else [])
        @ (if fl RowMin \<or> fl RowMax then
        [plane [RowMin] doRecv,
         plane [RowMax] True] else [])
        @ (if fl ColMin \<or> fl ColMax then
        [plane [ColMin] doRecv,
         plane [ColMax] True] else [])
        @
        [edge [RowMin, ColMin] doRecv,
         edge [RowMin, PlaneMin] doRecv,
         edge [ColMin, PlaneMin] doRecv,
         edge [RowMax, ColMax] True,
         edge [RowMax, PlaneMax] True,
         edge [ColMax, PlaneMax] True,
         edge [RowMax, ColMin] True,
         edge [RowMin, PlaneMax] True,
         edge [ColMin, PlaneMax] True,
         edge [RowMin, ColMax] doRecv,
         edge [RowMax, PlaneMin] doRecv,
         edge [ColMax, PlaneMin] doRecv,
         corner [RowMin, ColMin, PlaneMin] doRecv,
         corner [RowMin, ColMin, PlaneMax] True,
         corner [RowMin, ColMax, PlaneMin] doRecv,
         corner [RowMin, ColMax, PlaneMax] True,
         corner [RowMax, ColMin, PlaneMin] doRecv,
         corner [RowMax, ColMin, PlaneMax] True,
         corner [RowMax, ColMax, PlaneMin] doRecv,
         corner [RowMax, ColMax, PlaneMax] True])
       (init_state domain))"

text \<open>\<open>CommSBN\<close>, lines 1294-1861: no block tests \<open>doRecv\<close>, every one adds.\<close>

definition CommSBN ::
  "int \<Rightarrow> (real \<Rightarrow> real \<Rightarrow> real) \<Rightarrow> Domain \<Rightarrow> int \<Rightarrow> (int \<Rightarrow> Domain_member) \<Rightarrow> comm_state" where
  "CommSBN pad radd domain xferFields fieldData =
   (if numRanks domain = 1 then init_state domain
    else consume_all pad domain xferFields fieldData (accumulate radd) True)"

text \<open>
  \<open>CommSyncPosVel\<close>, lines 1869-2445: \<open>doRecv = false\<close>, six fields, every block stores.
\<close>

definition posvel_fields :: "int \<Rightarrow> Domain_member" where
  "posvel_fields fi = [M_x, M_y, M_z, M_xd, M_yd, M_zd] ! nat fi"

definition CommSyncPosVel :: "int \<Rightarrow> Domain \<Rightarrow> comm_state" where
  "CommSyncPosVel pad domain =
   (if numRanks domain = 1 then init_state domain
    else
     let doRecv = False;
         xferFields = 6
     in consume_all pad domain xferFields posvel_fields overwrite doRecv)"

subsection \<open>CommMonoQ\<close>

text \<open>
  \<open>CommMonoQ\<close>, lines 2453-2640: the six face blocks only. Every block stores its message
  from \<open>fieldOffset[fi]\<close> on in field \<open>fi\<close> and then advances \<open>fieldOffset[fi]\<close> by the face
  size; the last block (\<open>colMax\<close>) does not advance it. The state carries \<open>fieldOffset\<close>.
\<close>

record mono_state = comm_state +
  fieldOffset :: "int \<Rightarrow> int"

definition monoq_fields :: "int \<Rightarrow> Domain_member" where
  "monoq_fields fi = [M_delv_xi, M_delv_eta, M_delv_zeta] ! nat fi"

definition mono_field ::
  "(int \<Rightarrow> Domain_member) \<Rightarrow> int \<Rightarrow> bool \<Rightarrow> int \<Rightarrow> Domain \<times> int \<times> (int \<Rightarrow> int)
    \<Rightarrow> Domain \<times> int \<times> (int \<Rightarrow> int)" where
  "mono_field fieldData opCount advance fi st =
     (case st of (d, srcAddr, fo) \<Rightarrow>
        (for_loop opCount (\<lambda>i. overwrite (fieldData fi) srcAddr i (fo fi + i)) d,
         srcAddr + opCount,
         if advance then fo(fi := fo fi + opCount) else fo))"

definition mono_face ::
  "(flag \<Rightarrow> bool) \<Rightarrow> int \<Rightarrow> (int \<Rightarrow> Domain_member) \<Rightarrow> int \<Rightarrow> flag list \<Rightarrow> int \<Rightarrow> bool
    \<Rightarrow> mono_state \<Rightarrow> mono_state" where
  "mono_face fl xferFields fieldData maxPlaneComm g opCount advance s =
     (if holds fl g
      then (case for_loop xferFields (mono_field fieldData opCount advance)
                   (dom s, pmsg s * maxPlaneComm, fieldOffset s) of
              (d, srcAddr, fo) \<Rightarrow>
                (wait_recv g (pmsg s * maxPlaneComm) (pmsg s) s)
                  \<lparr>dom := d, pmsg := pmsg s + 1, fieldOffset := fo\<rparr>)
      else s)"

definition mono_init :: "Domain \<Rightarrow> mono_state" where
  "mono_init d = \<lparr>dom = d, pmsg = 0, emsg = 0, cmsg = 0, calls = [],
                  fieldOffset = (\<lambda>i. 0)(0 := numElem d, 1 := numElem d, 2 := numElem d)\<rparr>"

definition CommMonoQ :: "Domain \<Rightarrow> mono_state" where
  "CommMonoQ domain =
   (if numRanks domain = 1
    then \<lparr>dom = domain, pmsg = 0, emsg = 0, cmsg = 0, calls = [], fieldOffset = (\<lambda>i. 0)\<rparr>
    else
     let xferFields = 3;
         maxPlaneComm = xferFields * maxPlaneSize domain;
         dx = sizeX domain;
         dy = sizeY domain;
         dz = sizeZ domain;
         fl = boundaryFlag domain;
         face = mono_face fl xferFields monoq_fields maxPlaneComm
     in seq
       ((if fl PlaneMin \<or> fl PlaneMax then
        [face [PlaneMin] (dx * dy) True,
         face [PlaneMax] (dx * dy) True] else [])
        @ (if fl RowMin \<or> fl RowMax then
        [face [RowMin] (dx * dz) True,
         face [RowMax] (dx * dz) True] else [])
        @ (if fl ColMin \<or> fl ColMax then
        [face [ColMin] (dy * dz) True,
         face [ColMax] (dy * dz) False] else []))
       (mono_init domain))"

subsection \<open>Directions\<close>

text \<open>
  A direction is \<open>(dx, dy, dz)\<close> with \<open>dx\<close> along col, \<open>dy\<close> along row and \<open>dz\<close> along
  plane. The guard of a block names its direction: \<open>ColMin\<close> is \<open>dx = -1\<close>, \<open>ColMax\<close> is
  \<open>dx = 1\<close>, and so on for row and plane.
\<close>

type_synonym direction = "int \<times> int \<times> int"

definition axis :: "flag \<Rightarrow> flag \<Rightarrow> flag list \<Rightarrow> int" where
  "axis lo hi g = (if lo \<in> set g then -1 else 0) + (if hi \<in> set g then 1 else 0)"

definition dir_of :: "flag list \<Rightarrow> direction" where
  "dir_of g = (axis ColMin ColMax g, axis RowMin RowMax g, axis PlaneMin PlaneMax g)"

text \<open>The offset of the neighbour rank in a direction, for \<open>t\<close> domains per axis.\<close>

definition rank_off :: "int \<Rightarrow> direction \<Rightarrow> int" where
  "rank_off t v = (case v of (dx, dy, dz) \<Rightarrow> dz * t\<^sup>2 + dy * t + dx)"

definition is_direction :: "direction \<Rightarrow> bool" where
  "is_direction v = (case v of (dx, dy, dz) \<Rightarrow>
     dx \<in> {-1, 0, 1} \<and> dy \<in> {-1, 0, 1} \<and> dz \<in> {-1, 0, 1} \<and> (dx, dy, dz) \<noteq> (0, 0, 0))"

text \<open>
  A direction is active at a position when no nonzero component crosses the grid:
  \<open>-1\<close> needs a nonzero coordinate, \<open>+1\<close> a coordinate below \<open>tp - 1\<close>.
\<close>

definition active :: "Domain \<Rightarrow> direction \<Rightarrow> bool" where
  "active d v = (case v of (dx, dy, dz) \<Rightarrow>
     (dx = -1 \<longrightarrow> colLoc d \<noteq> 0) \<and> (dx = 1 \<longrightarrow> colLoc d < tp d - 1) \<and>
     (dy = -1 \<longrightarrow> rowLoc d \<noteq> 0) \<and> (dy = 1 \<longrightarrow> rowLoc d < tp d - 1) \<and>
     (dz = -1 \<longrightarrow> planeLoc d \<noteq> 0) \<and> (dz = 1 \<longrightarrow> planeLoc d < tp d - 1))"

definition in_grid :: "Domain \<Rightarrow> bool" where
  "in_grid d = (1 \<le> tp d \<and> 0 \<le> rowLoc d \<and> rowLoc d < tp d \<and> 0 \<le> colLoc d \<and> colLoc d < tp d
                \<and> 0 \<le> planeLoc d \<and> planeLoc d < tp d)"

text \<open>The neighbour position in a direction stays inside the grid (no wrap-around).\<close>

definition neighbour_in_grid :: "Domain \<Rightarrow> direction \<Rightarrow> bool" where
  "neighbour_in_grid d v = (case v of (dx, dy, dz) \<Rightarrow>
     0 \<le> colLoc d + dx \<and> colLoc d + dx < tp d \<and>
     0 \<le> rowLoc d + dy \<and> rowLoc d + dy < tp d \<and>
     0 \<le> planeLoc d + dz \<and> planeLoc d + dz < tp d)"

text \<open>The directions of the receives in the order \<open>CommRecv\<close> visits them.\<close>

definition recv_order :: "flag list list" where
  "recv_order =
     [[PlaneMin], [PlaneMax], [RowMin], [RowMax], [ColMin], [ColMax],
      [RowMin, ColMin], [RowMin, PlaneMin], [ColMin, PlaneMin],
      [RowMax, ColMax], [RowMax, PlaneMax], [ColMax, PlaneMax],
      [RowMax, ColMin], [RowMin, PlaneMax], [ColMin, PlaneMax],
      [RowMin, ColMax], [RowMax, PlaneMin], [ColMax, PlaneMin],
      [RowMin, ColMin, PlaneMin], [RowMin, ColMin, PlaneMax],
      [RowMin, ColMax, PlaneMin], [RowMin, ColMax, PlaneMax],
      [RowMax, ColMin, PlaneMin], [RowMax, ColMin, PlaneMax],
      [RowMax, ColMax, PlaneMin], [RowMax, ColMax, PlaneMax]]"

text \<open>
  The guards that do not test \<open>doRecv\<close> in \<open>CommRecv\<close> and \<open>CommSyncPosVel\<close>; in \<open>CommSend\<close>
  exactly these test \<open>doSend\<close>.
\<close>

definition upper_guards :: "flag list list" where
  "upper_guards =
     [[PlaneMax], [RowMax], [ColMax],
      [RowMax, ColMax], [RowMax, PlaneMax], [ColMax, PlaneMax],
      [RowMax, ColMin], [RowMin, PlaneMax], [ColMin, PlaneMax],
      [RowMin, ColMin, PlaneMax], [RowMin, ColMax, PlaneMax],
      [RowMax, ColMin, PlaneMax], [RowMax, ColMax, PlaneMax]]"

definition posted_dirs :: "comm_state \<Rightarrow> direction list" where
  "posted_dirs s = map (\<lambda>c. dir_of (c_guard c)) (calls s)"


text \<open>A domain in the middle of a 3 x 3 x 3 grid (rank 13), and one at its origin.\<close>

definition blank :: Domain where
  "blank = \<lparr>numRanks = 27, tp = 3, rowLoc = 1, colLoc = 1, planeLoc = 1,
            sizeX = 2, sizeY = 2, sizeZ = 2, numElem = 8, maxPlaneSize = 9, maxEdgeSize = 3,
            commDataSend = (\<lambda>i. 0), commDataRecv = (\<lambda>i. 0),
            recvRequest = (\<lambda>i. MPI_REQUEST_NULL), sendRequest = (\<lambda>i. MPI_REQUEST_NULL),
            member = (\<lambda>f i. 0)\<rparr>"

text \<open>
  Every logged send or receive names as peer the rank at \<open>rank_off\<close> of the direction of
  its guard.
\<close>

definition peer_ok :: "int \<Rightarrow> int \<Rightarrow> comm_state \<Rightarrow> bool" where
  "peer_ok t r s = list_all (\<lambda>c. c_kind c = Waitall \<or> c_peer c = r + rank_off t (dir_of (c_guard c))) (calls s)"


text \<open>The slot table of a log: guard, buffer offset and request slot of every call.\<close>

definition slot_table :: "'a comm_state_scheme \<Rightarrow> (flag list \<times> int \<times> int) list" where
  "slot_table s = map (\<lambda>c. (c_guard c, c_offset c, c_req c)) (calls s)"

text \<open>The directions of the sends of a log.\<close>

definition sent_dirs :: "comm_state \<Rightarrow> direction list" where
  "sent_dirs s = map (\<lambda>c. dir_of (c_guard c)) (filter (\<lambda>c. c_kind c = Isend) (calls s))"

text \<open>
  A direction points up when its last nonzero component, in the order plane, row, col, is
  positive. Faces have one nonzero component.
\<close>

definition upper :: "direction \<Rightarrow> bool" where
  "upper v = (case v of (dx, dy, dz) \<Rightarrow> dz = 1 \<or> (dz = 0 \<and> (dy = 1 \<or> (dy = 0 \<and> dx = 1))))"

definition is_face :: "direction \<Rightarrow> bool" where
  "is_face v = (case v of (dx, dy, dz) \<Rightarrow>
     (dx \<noteq> 0 \<and> dy = 0 \<and> dz = 0) \<or> (dx = 0 \<and> dy \<noteq> 0 \<and> dz = 0) \<or> (dx = 0 \<and> dy = 0 \<and> dz \<noteq> 0))"

definition opposite :: "direction \<Rightarrow> direction" where
  "opposite v = (case v of (dx, dy, dz) \<Rightarrow> (- dx, - dy, - dz))"

text \<open>Domain \<open>B\<close> is the neighbour of domain \<open>A\<close> in direction \<open>v\<close>, in the same grid.\<close>

definition neighbour_at :: "Domain \<Rightarrow> Domain \<Rightarrow> direction \<Rightarrow> bool" where
  "neighbour_at A B v = (case v of (dx, dy, dz) \<Rightarrow>
     tp B = tp A \<and> colLoc B = colLoc A + dx \<and> rowLoc B = rowLoc A + dy
     \<and> planeLoc B = planeLoc A + dz)"



text \<open>A domain at a corner of a 2 x 2 x 2 grid (rank 6), one element wide, with a receive
  buffer of ones.\<close>

definition octant :: Domain where
  "octant = \<lparr>numRanks = 8, tp = 2, rowLoc = 0, colLoc = 1, planeLoc = 1,
            sizeX = 1, sizeY = 1, sizeZ = 1, numElem = 1, maxPlaneSize = 4, maxEdgeSize = 2,
            commDataSend = (\<lambda>i. 0), commDataRecv = (\<lambda>i. 1),
            recvRequest = (\<lambda>i. MPI_REQUEST_NULL), sendRequest = (\<lambda>i. MPI_REQUEST_NULL),
            member = (\<lambda>f i. 0)\<rparr>"

subsection \<open>The cells of a block\<close>

text \<open>
  The iterations of the loops of a region, in order, as pairs of buffer index and field
  index; the writes of a whole block as triples of accessor, field index and buffer offset
  relative to the start of the message (field \<open>fi\<close> starts at \<open>fi * count\<close>).
\<close>

fun cells :: "region \<Rightarrow> (int \<times> int) list" where
  "cells (Run n idx) = map (\<lambda>i. (int i, idx (int i))) [0..<nat n]"
| "cells (Grid cnt n1 n2 bidx fidx) =
     concat (map (\<lambda>i. map (\<lambda>j. (bidx (int i) (int j), fidx (int i) (int j))) [0..<nat n2])
                 [0..<nat n1])"

definition rel_writes ::
  "int \<Rightarrow> (int \<Rightarrow> Domain_member) \<Rightarrow> region \<Rightarrow> (Domain_member \<times> int \<times> int) list" where
  "rel_writes xferFields fieldData r =
     concat (map (\<lambda>fi. map (\<lambda>(b, k). (fieldData (int fi), k, int fi * count r + b)) (cells r))
                 [0..<nat xferFields])"

definition corner_writes ::
  "int \<Rightarrow> (int \<Rightarrow> Domain_member) \<Rightarrow> int \<Rightarrow> (Domain_member \<times> int \<times> int) list" where
  "corner_writes xferFields fieldData idx =
     map (\<lambda>fi. (fieldData (int fi), idx, int fi)) [0..<nat xferFields]"

text \<open>
  Every buffer index of the region is used once and lies inside the \<open>count\<close> elements a
  field takes in the message.
\<close>

definition fits :: "region \<Rightarrow> bool" where
  "fits r = (distinct (map fst (cells r)) \<and> list_all (\<lambda>(b, k). 0 \<le> b \<and> b < count r) (cells r))"

text \<open>Performing a list of writes with one of the three assignments.\<close>

definition run_writes ::
  "(Domain_member \<Rightarrow> int \<Rightarrow> int \<Rightarrow> int \<Rightarrow> Domain \<Rightarrow> Domain) \<Rightarrow> int \<Rightarrow> (Domain_member \<times> int \<times> int) list \<Rightarrow> Domain \<Rightarrow> Domain" where
  "run_writes act base ws d = fold (\<lambda>(f, k, off). act f base off k) ws d"

text \<open>
  What a list of writes leaves in the send buffer (from the fields \<open>m\<close>) and in the fields
  (from the receive buffer \<open>recv\<close>), for the three assignments.
\<close>

fun send_image ::
  "(Domain_member \<Rightarrow> int \<Rightarrow> real) \<Rightarrow> int \<Rightarrow> (Domain_member \<times> int \<times> int) list \<Rightarrow> (int \<Rightarrow> real) \<Rightarrow> int \<Rightarrow> real" where
  "send_image m base [] buf = buf"
| "send_image m base ((f, k, off) # ws) buf = send_image m base ws (buf(base + off := m f k))"

fun ow_image ::
  "(int \<Rightarrow> real) \<Rightarrow> int \<Rightarrow> (Domain_member \<times> int \<times> int) list \<Rightarrow> (Domain_member \<Rightarrow> int \<Rightarrow> real)
    \<Rightarrow> Domain_member \<Rightarrow> int \<Rightarrow> real" where
  "ow_image recv base [] m = m"
| "ow_image recv base ((f, k, off) # ws) m =
     ow_image recv base ws (m(f := (m f)(k := recv (base + off))))"

fun acc_image ::
  "(real \<Rightarrow> real \<Rightarrow> real) \<Rightarrow> (int \<Rightarrow> real) \<Rightarrow> int \<Rightarrow> (Domain_member \<times> int \<times> int) list \<Rightarrow> (Domain_member \<Rightarrow> int \<Rightarrow> real)
    \<Rightarrow> Domain_member \<Rightarrow> int \<Rightarrow> real" where
  "acc_image radd recv base [] m = m"
| "acc_image radd recv base ((f, k, off) # ws) m =
     acc_image radd recv base ws (m(f := (m f)(k := radd (m f k) (recv (base + off)))))"


subsection \<open>The addition of \<open>double\<close>\<close>

text \<open>
  IEEE 754 binary64 addition, on the reals the operands denote: the exact sum rounded to the
  nearest number with 53 significant bits, ties to the even significand. \<open>ulp_of p n x u\<close>
  doubles or halves the unit \<open>u\<close> (at most \<open>n\<close> times) until \<open>2^(p-1) u \<le> |x| < 2^p u\<close>;
  from \<open>u = 1\<close>, 2200 steps reach every exponent of the format. The exponent range itself is
  not bounded: overflow to infinity and subnormal numbers are outside the model.
\<close>

fun ulp_of :: "nat \<Rightarrow> nat \<Rightarrow> real \<Rightarrow> real \<Rightarrow> real" where
  "ulp_of p 0 x u = u"
| "ulp_of p (Suc n) x u =
     (if 2 ^ p * u \<le> \<bar>x\<bar> then ulp_of p n x (2 * u)
      else if \<bar>x\<bar> < 2 ^ (p - 1) * u then ulp_of p n x (u / 2)
      else u)"

definition round_nearest_even :: "real \<Rightarrow> int" where
  "round_nearest_even y =
     (let f = \<lfloor>y\<rfloor>
      in if y - of_int f < 1 / 2 then f
         else if 1 / 2 < y - of_int f then f + 1
         else if even f then f else f + 1)"

definition round_binary64 :: "real \<Rightarrow> real" where
  "round_binary64 x =
     (if x = 0 then 0
      else let u = ulp_of 53 2200 x 1 in u * of_int (round_nearest_even (x / u)))"

definition add_binary64 :: "real \<Rightarrow> real \<Rightarrow> real" where
  "add_binary64 x y = round_binary64 (x + y)"

subsection \<open>The messages a traversal consumes\<close>

text \<open>
  The buffer layout of the receive side, written out independently of the routines: the
  guards of \<open>gs\<close> whose flags hold, in order, each with the buffer offset
  \<open>pmsg * maxPlaneComm + emsg * maxEdgeComm + cmsg * pad\<close> its message starts at; a face
  advances \<open>pmsg\<close>, an edge \<open>emsg\<close>, a corner \<open>cmsg\<close>.
\<close>

fun layout ::
  "(flag \<Rightarrow> bool) \<Rightarrow> int \<Rightarrow> int \<Rightarrow> int \<Rightarrow> flag list list \<Rightarrow> int \<Rightarrow> int \<Rightarrow> int
    \<Rightarrow> (flag list \<times> int) list" where
  "layout fl mpc mec pad [] p e c = []"
| "layout fl mpc mec pad (g # gs) p e c =
     (if holds fl g
      then (g, p * mpc + e * mec + c * pad)
             # (if length g = 1 then layout fl mpc mec pad gs (p + 1) e c
                else if length g = 2 then layout fl mpc mec pad gs p (e + 1) c
                else layout fl mpc mec pad gs p e (c + 1))
      else layout fl mpc mec pad gs p e c)"

text \<open>
  The writes of the block of guard \<open>g\<close> whose message starts at \<open>base\<close>, as triples of
  accessor, field index and absolute buffer index.
\<close>

definition block_writes_of ::
  "int \<Rightarrow> (int \<Rightarrow> Domain_member) \<Rightarrow> int \<Rightarrow> int \<Rightarrow> int \<Rightarrow> flag list \<Rightarrow> int
    \<Rightarrow> (Domain_member \<times> int \<times> int) list" where
  "block_writes_of xferFields fieldData dx dy dz g base =
     map (\<lambda>(f, k, off). (f, k, base + off))
       (if length g = 3 then corner_writes xferFields fieldData (corner_of dx dy dz g)
        else rel_writes xferFields fieldData (region_of dx dy dz g))"

text \<open>
  The messages \<open>CommSBN\<close> (\<open>doRecv = True\<close>) and \<open>CommSyncPosVel\<close> (\<open>doRecv = False\<close>: only the
  guards that do not test \<open>doRecv\<close>) consume, none when \<open>numRanks = 1\<close>; all their writes in
  order; and the buffer values that arrive at cell \<open>k\<close> of field \<open>f\<close>, in order.
\<close>

definition consumed :: "int \<Rightarrow> Domain \<Rightarrow> int \<Rightarrow> bool \<Rightarrow> (flag list \<times> int) list" where
  "consumed pad d xferFields doRecv =
     (if numRanks d = 1 then []
      else layout (boundaryFlag d) (xferFields * maxPlaneSize d) (xferFields * maxEdgeSize d) pad
             (if doRecv then recv_order else upper_guards) 0 0 0)"

definition unpack_plan ::
  "int \<Rightarrow> (int \<Rightarrow> Domain_member) \<Rightarrow> int \<Rightarrow> int \<Rightarrow> int \<Rightarrow> (flag list \<times> int) list
    \<Rightarrow> (Domain_member \<times> int \<times> int) list" where
  "unpack_plan xferFields fieldData dx dy dz ms =
     concat (map (\<lambda>(g, base). block_writes_of xferFields fieldData dx dy dz g base) ms)"

definition arrivals ::
  "int \<Rightarrow> Domain \<Rightarrow> int \<Rightarrow> (int \<Rightarrow> Domain_member) \<Rightarrow> bool \<Rightarrow> Domain_member \<Rightarrow> int \<Rightarrow> real list" where
  "arrivals pad d xferFields fieldData doRecv f k =
     map (\<lambda>(f', k', off). commDataRecv d off)
       (filter (\<lambda>(f', k', off). f' = f \<and> k' = k)
          (unpack_plan xferFields fieldData (sizeX d + 1) (sizeY d + 1) (sizeZ d + 1)
             (consumed pad d xferFields doRecv)))"

text \<open>
  The fields of a state of the traversal are the image of the writes of the calls logged so
  far, nothing else of the domain \<open>d\<close> it started from has changed.
\<close>

definition img_inv ::
  "(real \<Rightarrow> real \<Rightarrow> real) \<Rightarrow> Domain \<Rightarrow> int \<Rightarrow> (int \<Rightarrow> Domain_member) \<Rightarrow> comm_state \<Rightarrow> bool" where
  "img_inv radd d xferFields fieldData s =
     (dom s = d\<lparr>member := acc_image radd (commDataRecv d) 0
                   (unpack_plan xferFields fieldData (sizeX d + 1) (sizeY d + 1) (sizeZ d + 1)
                      (map (\<lambda>c. (c_guard c, c_offset c)) (calls s)))
                   (member d)\<rparr>)"

subsection \<open>The cells \<open>CommSyncPosVel\<close> stores to\<close>

text \<open>
  The field indices the block of guard \<open>g\<close> touches (a corner block touches one), and the
  indices touched by the blocks of \<open>CommSyncPosVel\<close> that do not test \<open>doRecv\<close> and whose flags
  hold in domain \<open>d\<close>.
\<close>

definition block_cells :: "int \<Rightarrow> int \<Rightarrow> int \<Rightarrow> flag list \<Rightarrow> int set" where
  "block_cells dx dy dz g =
     (if length g = 3 then {corner_of dx dy dz g} else snd ` set (cells (region_of dx dy dz g)))"

definition stored :: "Domain \<Rightarrow> int set" where
  "stored d = (\<Union>g \<in> {g \<in> set upper_guards. holds (boundaryFlag d) g}.
                 block_cells (sizeX d + 1) (sizeY d + 1) (sizeZ d + 1) g)"

text \<open>
  What every state of \<open>CommSyncPosVel\<close> keeps of the domain \<open>d\<close> it started from.
\<close>

definition sync_inv :: "Domain \<Rightarrow> comm_state \<Rightarrow> bool" where
  "sync_inv d s =
     (dom s = d\<lparr>member := member (dom s)\<rparr>
      \<and> (\<forall>f k. member (dom s) f k \<noteq> member d f k
            \<longrightarrow> f \<in> {M_x, M_y, M_z, M_xd, M_yd, M_zd} \<and> k \<in> stored d)
      \<and> list_all (\<lambda>c. c_kind c = Wait \<and> c_guard c \<in> set upper_guards
                       \<and> holds (boundaryFlag d) (c_guard c)) (calls s))"

text \<open>The same domain with every field holding its index.\<close>

definition ramp :: Domain where
  "ramp = blank\<lparr>member := (\<lambda>f k. of_int k)\<rparr>"

section \<open>Properties\<close>

subsection \<open>Auxiliary facts about the blocks\<close>


lemma for_loop_inv:
  assumes "P s" "\<And>i s. P s \<Longrightarrow> P (body i s)"
  shows "P (for_loop n body s)"
proof -
  have "P (fold (\<lambda>i. body (int i)) xs s)" for xs
    using assms(1) by (induction xs arbitrary: s) (auto intro: assms(2))
  then show ?thesis by (simp add: for_loop_def)
qed

lemma holds_simps [simp]:
  "holds fl [] = True"
  "holds fl (f # g) = (fl f \<and> holds fl g)"
  by (simp_all add: holds_def)

lemma init_state_simps [simp]:
  "dom (init_state d) = d" "calls (init_state d) = []" "pmsg (init_state d) = 0"
  "emsg (init_state d) = 0" "cmsg (init_state d) = 0"
  by (simp_all add: init_state_def)

lemma log_call_simps [simp]:
  "dom (log_call kind g off cnt peer mt slot s) = dom s"
  "pmsg (log_call kind g off cnt peer mt slot s) = pmsg s"
  "emsg (log_call kind g off cnt peer mt slot s) = emsg s"
  "cmsg (log_call kind g off cnt peer mt slot s) = cmsg s"
  "calls (log_call kind g off cnt peer mt slot s) =
     calls s @ [\<lparr>c_kind = kind, c_guard = g, c_offset = off, c_count = cnt,
                 c_peer = peer, c_tag = mt, c_req = slot\<rparr>]"
  by (simp_all add: log_call_def)

text \<open>The counters and the log after each kind of step.\<close>

lemma clear_recvRequest_proj [simp]:
  "pmsg (clear_recvRequest s) = pmsg s"
  "emsg (clear_recvRequest s) = emsg s"
  "cmsg (clear_recvRequest s) = cmsg s"
  "calls (clear_recvRequest s) = calls s"
  unfolding clear_recvRequest_def
     apply (rule for_loop_inv[where P="\<lambda>t. pmsg t = pmsg s"]; simp)
    apply (rule for_loop_inv[where P="\<lambda>t. emsg t = emsg s"]; simp)
   apply (rule for_loop_inv[where P="\<lambda>t. cmsg t = cmsg s"]; simp)
  apply (rule for_loop_inv[where P="\<lambda>t. calls t = calls s"]; simp)
  done

lemma clear_sendRequest_proj [simp]:
  "pmsg (clear_sendRequest s) = pmsg s"
  "emsg (clear_sendRequest s) = emsg s"
  "cmsg (clear_sendRequest s) = cmsg s"
  "calls (clear_sendRequest s) = calls s"
  unfolding clear_sendRequest_def
     apply (rule for_loop_inv[where P="\<lambda>t. pmsg t = pmsg s"]; simp)
    apply (rule for_loop_inv[where P="\<lambda>t. emsg t = emsg s"]; simp)
   apply (rule for_loop_inv[where P="\<lambda>t. cmsg t = cmsg s"]; simp)
  apply (rule for_loop_inv[where P="\<lambda>t. calls t = calls s"]; simp)
  done

lemma recv_plane_proj [simp]:
  "pmsg (recv_plane fl mt mpc g en fr cnt s) = (if holds fl g \<and> en then pmsg s + 1 else pmsg s)"
  "emsg (recv_plane fl mt mpc g en fr cnt s) = emsg s"
  "cmsg (recv_plane fl mt mpc g en fr cnt s) = cmsg s"
  "calls (recv_plane fl mt mpc g en fr cnt s) = calls s @
     (if holds fl g \<and> en
      then [\<lparr>c_kind = Irecv, c_guard = g, c_offset = pmsg s * mpc, c_count = cnt,
              c_peer = fr, c_tag = mt, c_req = pmsg s\<rparr>] else [])"
  by (simp_all add: recv_plane_def post_recv_def)

lemma recv_edge_proj [simp]:
  "pmsg (recv_edge fl mt mpc mec g en fr cnt s) = pmsg s"
  "emsg (recv_edge fl mt mpc mec g en fr cnt s) = (if holds fl g \<and> en then emsg s + 1 else emsg s)"
  "cmsg (recv_edge fl mt mpc mec g en fr cnt s) = cmsg s"
  "calls (recv_edge fl mt mpc mec g en fr cnt s) = calls s @
     (if holds fl g \<and> en
      then [\<lparr>c_kind = Irecv, c_guard = g, c_offset = pmsg s * mpc + emsg s * mec, c_count = cnt,
              c_peer = fr, c_tag = mt, c_req = pmsg s + emsg s\<rparr>] else [])"
  by (simp_all add: recv_edge_def post_recv_def)

lemma recv_corner_proj [simp]:
  "pmsg (recv_corner fl mt mpc mec pad g en fr cnt s) = pmsg s"
  "emsg (recv_corner fl mt mpc mec pad g en fr cnt s) = emsg s"
  "cmsg (recv_corner fl mt mpc mec pad g en fr cnt s) = (if holds fl g \<and> en then cmsg s + 1 else cmsg s)"
  "calls (recv_corner fl mt mpc mec pad g en fr cnt s) = calls s @
     (if holds fl g \<and> en
      then [\<lparr>c_kind = Irecv, c_guard = g, c_offset = pmsg s * mpc + emsg s * mec + cmsg s * pad,
              c_count = cnt, c_peer = fr, c_tag = mt, c_req = pmsg s + emsg s + cmsg s\<rparr>] else [])"
  by (simp_all add: recv_corner_def post_recv_def)

lemma pack_send_proj [simp]:
  "pmsg (pack_send mt xf fd r g to base slot s) = pmsg s"
  "emsg (pack_send mt xf fd r g to base slot s) = emsg s"
  "cmsg (pack_send mt xf fd r g to base slot s) = cmsg s"
  "map c_guard (calls (pack_send mt xf fd r g to base slot s)) = map c_guard (calls s) @ [g]"
  "map c_kind (calls (pack_send mt xf fd r g to base slot s)) = map c_kind (calls s) @ [Isend]"
  "map c_peer (calls (pack_send mt xf fd r g to base slot s)) = map c_peer (calls s) @ [to]"
  "map (\<lambda>c. (c_kind c, c_guard c)) (calls (pack_send mt xf fd r g to base slot s)) =
     map (\<lambda>c. (c_kind c, c_guard c)) (calls s) @ [(Isend, g)]"
  by (simp_all add: pack_send_def post_send_def split: prod.splits)

lemma send_plane_proj [simp]:
  "pmsg (send_plane fl mt xf fd dx dy dz mpc g en to s) = (if holds fl g \<and> en then pmsg s + 1 else pmsg s)"
  "emsg (send_plane fl mt xf fd dx dy dz mpc g en to s) = emsg s"
  "cmsg (send_plane fl mt xf fd dx dy dz mpc g en to s) = cmsg s"
  "map c_guard (calls (send_plane fl mt xf fd dx dy dz mpc g en to s)) =
     map c_guard (calls s) @ (if holds fl g \<and> en then [g] else [])"
  "map c_kind (calls (send_plane fl mt xf fd dx dy dz mpc g en to s)) =
     map c_kind (calls s) @ (if holds fl g \<and> en then [Isend] else [])"
  "map c_peer (calls (send_plane fl mt xf fd dx dy dz mpc g en to s)) =
     map c_peer (calls s) @ (if holds fl g \<and> en then [to] else [])"
  "map (\<lambda>c. (c_kind c, c_guard c)) (calls (send_plane fl mt xf fd dx dy dz mpc g en to s)) =
     map (\<lambda>c. (c_kind c, c_guard c)) (calls s) @ (if holds fl g \<and> en then [(Isend, g)] else [])"
  by (simp_all add: send_plane_def)

lemma send_edge_proj [simp]:
  "pmsg (send_edge fl mt xf fd dx dy dz mpc mec g en to s) = pmsg s"
  "emsg (send_edge fl mt xf fd dx dy dz mpc mec g en to s) = (if holds fl g \<and> en then emsg s + 1 else emsg s)"
  "cmsg (send_edge fl mt xf fd dx dy dz mpc mec g en to s) = cmsg s"
  "map c_guard (calls (send_edge fl mt xf fd dx dy dz mpc mec g en to s)) =
     map c_guard (calls s) @ (if holds fl g \<and> en then [g] else [])"
  "map c_kind (calls (send_edge fl mt xf fd dx dy dz mpc mec g en to s)) =
     map c_kind (calls s) @ (if holds fl g \<and> en then [Isend] else [])"
  "map c_peer (calls (send_edge fl mt xf fd dx dy dz mpc mec g en to s)) =
     map c_peer (calls s) @ (if holds fl g \<and> en then [to] else [])"
  "map (\<lambda>c. (c_kind c, c_guard c)) (calls (send_edge fl mt xf fd dx dy dz mpc mec g en to s)) =
     map (\<lambda>c. (c_kind c, c_guard c)) (calls s) @ (if holds fl g \<and> en then [(Isend, g)] else [])"
  by (simp_all add: send_edge_def)

lemma send_corner_proj [simp]:
  "pmsg (send_corner fl mt xf fd dx dy dz mpc mec pad g en to s) = pmsg s"
  "emsg (send_corner fl mt xf fd dx dy dz mpc mec pad g en to s) = emsg s"
  "cmsg (send_corner fl mt xf fd dx dy dz mpc mec pad g en to s) = (if holds fl g \<and> en then cmsg s + 1 else cmsg s)"
  "map c_guard (calls (send_corner fl mt xf fd dx dy dz mpc mec pad g en to s)) =
     map c_guard (calls s) @ (if holds fl g \<and> en then [g] else [])"
  "map c_kind (calls (send_corner fl mt xf fd dx dy dz mpc mec pad g en to s)) =
     map c_kind (calls s) @ (if holds fl g \<and> en then [Isend] else [])"
  "map c_peer (calls (send_corner fl mt xf fd dx dy dz mpc mec pad g en to s)) =
     map c_peer (calls s) @ (if holds fl g \<and> en then [to] else [])"
  "map (\<lambda>c. (c_kind c, c_guard c)) (calls (send_corner fl mt xf fd dx dy dz mpc mec pad g en to s)) =
     map (\<lambda>c. (c_kind c, c_guard c)) (calls s) @ (if holds fl g \<and> en then [(Isend, g)] else [])"
  by (simp_all add: send_corner_def post_send_def Let_def)

lemma waitall_send_proj [simp]:
  "map c_guard (calls (waitall_send s)) = map c_guard (calls s) @ [[]]"
  "map c_kind (calls (waitall_send s)) = map c_kind (calls s) @ [Waitall]"
  "map c_peer (calls (waitall_send s)) = map c_peer (calls s) @ [0]"
  "map (\<lambda>c. (c_kind c, c_guard c)) (calls (waitall_send s)) =
     map (\<lambda>c. (c_kind c, c_guard c)) (calls s) @ [(Waitall, [])]"
  by (simp_all add: waitall_send_def)

lemma consume_plane_proj [simp]:
  "pmsg (consume_plane fl xf fd act dx dy dz mpc g en s) = (if holds fl g \<and> en then pmsg s + 1 else pmsg s)"
  "emsg (consume_plane fl xf fd act dx dy dz mpc g en s) = emsg s"
  "cmsg (consume_plane fl xf fd act dx dy dz mpc g en s) = cmsg s"
  "calls (consume_plane fl xf fd act dx dy dz mpc g en s) = calls s @
     (if holds fl g \<and> en
      then [\<lparr>c_kind = Wait, c_guard = g, c_offset = pmsg s * mpc, c_count = 0,
              c_peer = 0, c_tag = 0, c_req = pmsg s\<rparr>] else [])"
  by (simp_all add: consume_plane_def unpack_recv_def wait_recv_def)

lemma consume_edge_proj [simp]:
  "pmsg (consume_edge fl xf fd act dx dy dz mpc mec g en s) = pmsg s"
  "emsg (consume_edge fl xf fd act dx dy dz mpc mec g en s) = (if holds fl g \<and> en then emsg s + 1 else emsg s)"
  "cmsg (consume_edge fl xf fd act dx dy dz mpc mec g en s) = cmsg s"
  "calls (consume_edge fl xf fd act dx dy dz mpc mec g en s) = calls s @
     (if holds fl g \<and> en
      then [\<lparr>c_kind = Wait, c_guard = g, c_offset = pmsg s * mpc + emsg s * mec, c_count = 0,
              c_peer = 0, c_tag = 0, c_req = pmsg s + emsg s\<rparr>] else [])"
  by (simp_all add: consume_edge_def unpack_recv_def wait_recv_def)

lemma consume_corner_proj [simp]:
  "pmsg (consume_corner fl xf fd act dx dy dz mpc mec pad g en s) = pmsg s"
  "emsg (consume_corner fl xf fd act dx dy dz mpc mec pad g en s) = emsg s"
  "cmsg (consume_corner fl xf fd act dx dy dz mpc mec pad g en s) = (if holds fl g \<and> en then cmsg s + 1 else cmsg s)"
  "calls (consume_corner fl xf fd act dx dy dz mpc mec pad g en s) = calls s @
     (if holds fl g \<and> en
      then [\<lparr>c_kind = Wait, c_guard = g, c_offset = pmsg s * mpc + emsg s * mec + cmsg s * pad,
              c_count = 0, c_peer = 0, c_tag = 0, c_req = pmsg s + emsg s + cmsg s\<rparr>] else [])"
  by (simp_all add: consume_corner_def wait_recv_def Let_def)

lemma seq_inv:
  assumes "\<And>f s. f \<in> set fs \<Longrightarrow> I s \<Longrightarrow> I (f s)" "I s"
  shows "I (seq fs s)"
  unfolding seq_def using assms
  by (induction fs arbitrary: s) auto

lemma in_set_if: "x \<in> set (if c then xs else []) \<longleftrightarrow> c \<and> x \<in> set xs"
  by simp


lemma octant_flags:
  "boundaryFlag octant RowMin = False" "boundaryFlag octant RowMax = True"
  "boundaryFlag octant ColMin = True" "boundaryFlag octant ColMax = False"
  "boundaryFlag octant PlaneMin = True" "boundaryFlag octant PlaneMax = False"
  by (simp_all add: octant_def)

lemma octant_sizes:
  "numRanks octant \<noteq> 1" "sizeX octant + 1 = 2" "sizeY octant + 1 = 2" "sizeZ octant + 1 = 2"
  "maxPlaneSize octant = 4" "maxEdgeSize octant = 2"
  by (simp_all add: octant_def)

subsection \<open>Loops as lists of writes\<close>

lemma fold_concat: "fold f (concat xss) = fold (fold f) xss"
  by (induction xss) simp_all

lemma for_loop_fold: "for_loop n body = fold (\<lambda>i. body (int i)) [0..<nat n]"
  by (rule ext) (simp add: for_loop_def)

lemma region_loop_cells:
  "region_loop r act = fold (\<lambda>(b, k). act b k) (cells r)"
proof (cases r)
  case (Run n idx)
  then show ?thesis by (simp add: for_loop_fold fold_map comp_def)
next
  case (Grid cnt n1 n2 bidx fidx)
  then show ?thesis
    by (simp add: for_loop_fold fold_map fold_concat comp_def)
qed

lemma counted_fold:
  "fold (\<lambda>i (d, a). (F i a d, a + c)) [0..<n] (d, addr) =
     (fold (\<lambda>i. F i (addr + int i * c)) [0..<n] d, addr + int n * c)"
  by (induction n) (simp_all add: algebra_simps)

lemma field_loop_fold:
  "field_loop xf fd c body addr d =
     (fold (\<lambda>fi. body (fd (int fi)) (addr + int fi * c)) [0..<nat xf] d, addr + int (nat xf) * c)"
  unfolding field_loop_def for_loop_fold
  using counted_fold [of "\<lambda>i. body (fd (int i))" c "nat xf" d addr]
  by (simp add: case_prod_unfold)

lemma block_writes:
  assumes "\<And>f a x b k. act f (a + x) b k = act f a (x + b) k"
  shows "fst (field_loop xf fd (count r) (\<lambda>m a. region_loop r (act m a)) base d)
           = run_writes act base (rel_writes xf fd r) d"
  by (simp add: field_loop_fold region_loop_cells run_writes_def rel_writes_def fold_concat fold_map
        comp_def case_prod_unfold assms)

lemma corner_loop_writes:
  "corner_loop xf fd act comBuf idx d = run_writes act comBuf (corner_writes xf fd idx) d"
  by (simp add: corner_loop_def for_loop_fold run_writes_def corner_writes_def fold_map comp_def)

lemma act_shift:
  "gather f (a + x) b k = gather f a (x + b) k"
  "overwrite f (a + x) b k = overwrite f a (x + b) k"
  "accumulate radd f (a + x) b k = accumulate radd f a (x + b) k"
proof -
  have e: "a + x + b = a + (x + b)" by simp
  show "gather f (a + x) b k = gather f a (x + b) k"
    "overwrite f (a + x) b k = overwrite f a (x + b) k"
    "accumulate radd f (a + x) b k = accumulate radd f a (x + b) k"
    unfolding gather_def overwrite_def accumulate_def e by (rule refl)+
qed

lemma run_writes_Cons:
  "run_writes act base ((f, k, off) # ws) d = run_writes act base ws (act f base off k d)"
  by (simp add: run_writes_def)

lemma run_gather:
  "run_writes gather base ws d = d\<lparr>commDataSend := send_image (member d) base ws (commDataSend d)\<rparr>"
proof (induction ws arbitrary: d)
  case Nil
  then show ?case by (simp add: run_writes_def)
next
  case (Cons w ws)
  obtain f k off where w: "w = (f, k, off)" by (cases w)
  show ?case
    unfolding w run_writes_Cons Cons.IH by (simp add: gather_def)
qed

lemma run_overwrite:
  "run_writes overwrite base ws d = d\<lparr>member := ow_image (commDataRecv d) base ws (member d)\<rparr>"
proof (induction ws arbitrary: d)
  case Nil
  then show ?case by (simp add: run_writes_def)
next
  case (Cons w ws)
  obtain f k off where w: "w = (f, k, off)" by (cases w)
  show ?case
    unfolding w run_writes_Cons Cons.IH by (simp add: overwrite_def)
qed

lemma run_accumulate:
  "run_writes (accumulate radd) base ws d =
     d\<lparr>member := acc_image radd (commDataRecv d) base ws (member d)\<rparr>"
proof (induction ws arbitrary: d)
  case Nil
  then show ?case by (simp add: run_writes_def)
next
  case (Cons w ws)
  obtain f k off where w: "w = (f, k, off)" by (cases w)
  show ?case
    unfolding w run_writes_Cons Cons.IH by (simp add: accumulate_def)
qed

lemma send_image_snoc:
  "send_image m base (ws @ [(f, k, off)]) buf a =
     (if a = base + off then m f k else send_image m base ws buf a)"
  by (induction ws arbitrary: buf) auto

lemma ow_image_snoc:
  "ow_image recv base (ws @ [(f, k, off)]) m f' k' =
     (if f' = f \<and> k' = k then recv (base + off) else ow_image recv base ws m f' k')"
  by (induction ws arbitrary: m) auto

lemma acc_image_snoc:
  "acc_image radd recv base (ws @ [(f, k, off)]) m f' k' =
     (if f' = f \<and> k' = k then radd (acc_image radd recv base ws m f' k') (recv (base + off))
      else acc_image radd recv base ws m f' k')"
  by (induction ws arbitrary: m) auto

lemma send_image_other:
  "(\<And>f k off. (f, k, off) \<in> set ws \<Longrightarrow> base + off \<noteq> a) \<Longrightarrow> send_image m base ws buf a = buf a"
proof (induction ws rule: rev_induct)
  case Nil
  then show ?case by simp
next
  case (snoc w ws)
  obtain f k off where w: "w = (f, k, off)" by (cases w)
  from snoc.prems [of f k off] have "base + off \<noteq> a" by (simp add: w)
  moreover have "send_image m base ws buf a = buf a"
    by (rule snoc.IH) (use snoc.prems in auto)
  ultimately show ?case by (simp add: w send_image_snoc)
qed

lemma send_image_value:
  assumes "(f, k, off) \<in> set ws"
    and "\<And>f' k'. (f', k', off) \<in> set ws \<Longrightarrow> m f' k' = v"
  shows "send_image m base ws buf (base + off) = v"
  using assms
proof (induction ws rule: rev_induct)
  case Nil
  then show ?case by simp
next
  case (snoc w ws)
  obtain f' k' off' where w: "w = (f', k', off')" by (cases w)
  show ?case
  proof (cases "off' = off")
    case True
    then show ?thesis using snoc.prems(2) [of f' k'] by (simp add: w send_image_snoc)
  next
    case False
    with snoc.prems(1) have "(f, k, off) \<in> set ws" by (simp add: w)
    then have "send_image m base ws buf (base + off) = v"
      using snoc.IH snoc.prems(2) by simp
    then show ?thesis using False by (simp add: w send_image_snoc)
  qed
qed

lemma ow_image_other:
  "(\<And>off. (f, k, off) \<notin> set ws) \<Longrightarrow> ow_image recv base ws m f k = m f k"
proof (induction ws rule: rev_induct)
  case Nil
  then show ?case by simp
next
  case (snoc w ws)
  obtain f' k' off' where w: "w = (f', k', off')" by (cases w)
  from snoc.prems [of off'] have ne: "\<not> (f' = f \<and> k' = k)" by (auto simp: w)
  have "ow_image recv base ws m f k = m f k"
    by (rule snoc.IH) (use snoc.prems in auto)
  then show ?case using ne by (auto simp: w ow_image_snoc)
qed

lemma ow_image_value:
  assumes "(f, k, off) \<in> set ws"
    and "\<And>off'. (f, k, off') \<in> set ws \<Longrightarrow> recv (base + off') = v"
  shows "ow_image recv base ws m f k = v"
  using assms
proof (induction ws arbitrary: off rule: rev_induct)
  case Nil
  then show ?case by simp
next
  case (snoc w ws)
  obtain f' k' off' where w: "w = (f', k', off')" by (cases w)
  show ?case
  proof (cases "f' = f \<and> k' = k")
    case True
    then show ?thesis using snoc.prems(2) [of off'] by (simp add: w ow_image_snoc)
  next
    case False
    with snoc.prems(1) have "(f, k, off) \<in> set ws" by (auto simp: w)
    then have "ow_image recv base ws m f k = v"
      using snoc.IH snoc.prems(2) by simp
    then show ?thesis using False by (auto simp: w ow_image_snoc)
  qed
qed

lemma acc_image_other:
  "(\<And>off. (f, k, off) \<notin> set ws) \<Longrightarrow> acc_image radd recv base ws m f k = m f k"
proof (induction ws rule: rev_induct)
  case Nil
  then show ?case by simp
next
  case (snoc w ws)
  obtain f' k' off' where w: "w = (f', k', off')" by (cases w)
  from snoc.prems [of off'] have ne: "\<not> (f' = f \<and> k' = k)" by (auto simp: w)
  have "acc_image radd recv base ws m f k = m f k"
    by (rule snoc.IH) (use snoc.prems in auto)
  then show ?case using ne by (auto simp: w acc_image_snoc)
qed

lemma in_concat_map: "i \<in> set xs \<Longrightarrow> x \<in> set (F i) \<Longrightarrow> x \<in> set (concat (map F xs))"
  by auto

lemma rel_writes_mem:
  "(f, k, off) \<in> set (rel_writes xf fd r) \<longleftrightarrow>
     (\<exists>fi b. 0 \<le> fi \<and> fi < xf \<and> (b, k) \<in> set (cells r) \<and> f = fd fi \<and> off = fi * count r + b)"
proof
  assume "(f, k, off) \<in> set (rel_writes xf fd r)"
  then obtain i b where i: "i < nat xf" and bk: "(b, k) \<in> set (cells r)"
    and f: "f = fd (int i)" and off: "off = int i * count r + b"
    by (auto simp: rel_writes_def)
  from i have "0 \<le> int i \<and> int i < xf" by linarith
  with bk f off show "\<exists>fi b. 0 \<le> fi \<and> fi < xf \<and> (b, k) \<in> set (cells r) \<and> f = fd fi \<and> off = fi * count r + b"
    by blast
next
  assume "\<exists>fi b. 0 \<le> fi \<and> fi < xf \<and> (b, k) \<in> set (cells r) \<and> f = fd fi \<and> off = fi * count r + b"
  then obtain fi b where fi: "0 \<le> fi" "fi < xf" and bk: "(b, k) \<in> set (cells r)"
    and f: "f = fd fi" and off: "off = fi * count r + b" by blast
  from fi have n: "nat fi \<in> set [0..<nat xf]" "int (nat fi) = fi" by simp_all
  have "(f, k, off) = (\<lambda>(b, k). (fd (int (nat fi)), k, int (nat fi) * count r + b)) (b, k)"
    using f off n by simp
  then have m: "(f, k, off) \<in> set (map (\<lambda>(b, k). (fd (int (nat fi)), k, int (nat fi) * count r + b)) (cells r))"
    unfolding set_map by (rule image_eqI) (rule bk)
  show "(f, k, off) \<in> set (rel_writes xf fd r)"
    unfolding rel_writes_def by (rule in_concat_map [OF n(1)]) (rule m)
qed

lemma corner_writes_mem:
  "(f, k, off) \<in> set (corner_writes xf fd idx) \<longleftrightarrow>
     (0 \<le> off \<and> off < xf \<and> k = idx \<and> f = fd off)"
proof
  assume "(f, k, off) \<in> set (corner_writes xf fd idx)"
  then obtain i where "i < nat xf" "f = fd (int i)" "k = idx" "off = int i"
    by (auto simp: corner_writes_def)
  then show "0 \<le> off \<and> off < xf \<and> k = idx \<and> f = fd off" by simp
next
  assume a: "0 \<le> off \<and> off < xf \<and> k = idx \<and> f = fd off"
  then have n: "nat off \<in> set [0..<nat xf]" "int (nat off) = off" by simp_all
  have e: "(f, k, off) = (fd (int (nat off)), idx, int (nat off))"
    using a n by simp
  show "(f, k, off) \<in> set (corner_writes xf fd idx)"
    unfolding corner_writes_def set_map e by (rule imageI [OF n(1)])
qed

lemma fits_cell:
  assumes "fits r" "(b, k) \<in> set (cells r)"
  shows "0 \<le> b" "b < count r"
  using assms by (auto simp: fits_def list_all_iff)

lemma fits_key:
  assumes "fits r" "(b, k) \<in> set (cells r)" "(b, k') \<in> set (cells r)"
  shows "k = k'"
  using assms eq_key_imp_eq_value [of "cells r" b k k'] by (simp add: fits_def)

lemma split_offset:
  fixes c :: int
  assumes "0 \<le> b" "b < c" "0 \<le> b'" "b' < c" "fi * c + b = fi' * c + b'"
  shows "fi = fi' \<and> b = b'"
proof -
  have "(fi * c + b) div c = fi" "(fi' * c + b') div c = fi'"
    using assms(1-4) by simp_all
  with assms(5) have "fi = fi'" by simp
  with assms(5) show ?thesis by simp
qed

lemma offset_range:
  fixes c :: int
  assumes "0 \<le> b" "b < c" "0 \<le> fi" "fi < xf"
  shows "0 \<le> fi * c + b" "fi * c + b < xf * c"
proof -
  from assms have c: "0 < c" by simp
  show "0 \<le> fi * c + b" using assms c by simp
  have "fi + 1 \<le> xf" using assms by simp
  then have "(fi + 1) * c \<le> xf * c" using c by (simp add: mult_right_mono)
  then show "fi * c + b < xf * c" using assms by (simp add: algebra_simps)
qed

lemma rel_writes_offset:
  assumes "fits r" "(f, k, off) \<in> set (rel_writes xf fd r)"
  shows "0 \<le> off" "off < xf * count r"
proof -
  from assms(2) obtain fi b where *: "0 \<le> fi" "fi < xf" "(b, k) \<in> set (cells r)" "off = fi * count r + b"
    unfolding rel_writes_mem by blast
  note fc = fits_cell [OF assms(1) *(3)]
  show "0 \<le> off" "off < xf * count r"
    using offset_range [OF fc *(1,2)] *(4) by simp_all
qed

lemma rel_writes_same_offset:
  assumes "fits r" "(f, k, off) \<in> set (rel_writes xf fd r)" "(f', k', off) \<in> set (rel_writes xf fd r)"
  shows "f = f' \<and> k = k'"
proof -
  from assms(2) obtain fi b where 1: "(b, k) \<in> set (cells r)" "f = fd fi" "off = fi * count r + b"
    unfolding rel_writes_mem by blast
  from assms(3) obtain fi' b' where 2: "(b', k') \<in> set (cells r)" "f' = fd fi'" "off = fi' * count r + b'"
    unfolding rel_writes_mem by blast
  have "fi * count r + b = fi' * count r + b'" using 1(3) 2(3) by simp
  then have "fi = fi' \<and> b = b'"
    by (rule split_offset [OF fits_cell [OF assms(1) 1(1)] fits_cell [OF assms(1) 2(1)]])
  then show ?thesis using fits_key [OF assms(1) 1(1)] 1 2 by auto
qed

lemma unpack_overwrite_eq:
  "unpack_block overwrite xf fd r base d =
     d\<lparr>member := ow_image (commDataRecv d) base (rel_writes xf fd r) (member d)\<rparr>"
  unfolding unpack_block_def using block_writes [of overwrite xf fd r base d, OF act_shift(2)]
  by (simp add: run_overwrite)

lemma unpack_accumulate_eq:
  "unpack_block (accumulate radd) xf fd r base d =
     d\<lparr>member := acc_image radd (commDataRecv d) base (rel_writes xf fd r) (member d)\<rparr>"
  unfolding unpack_block_def using block_writes [of "accumulate radd" xf fd r base d, OF act_shift(3)]
  by (simp add: run_accumulate)

lemma corner_gather_eq:
  "corner_loop xf fd gather base idx d =
     d\<lparr>commDataSend := send_image (member d) base (corner_writes xf fd idx) (commDataSend d)\<rparr>"
  by (simp add: corner_loop_writes run_gather)

lemma corner_overwrite_eq:
  "corner_loop xf fd overwrite base idx d =
     d\<lparr>member := ow_image (commDataRecv d) base (corner_writes xf fd idx) (member d)\<rparr>"
  by (simp add: corner_loop_writes run_overwrite)

lemma corner_accumulate_eq:
  "corner_loop xf fd (accumulate radd) base idx d =
     d\<lparr>member := acc_image radd (commDataRecv d) base (corner_writes xf fd idx) (member d)\<rparr>"
  by (simp add: corner_loop_writes run_accumulate)

text \<open>Round trip through one message, for any list of writes whose offsets name one cell each.\<close>

lemma writes_round_trip:
  assumes same: "\<And>f k f' k' off. (f, k, off) \<in> set ws \<Longrightarrow> (f', k', off) \<in> set ws \<Longrightarrow> f = f' \<and> k = k'"
    and deliv: "\<And>f k off. (f, k, off) \<in> set ws \<Longrightarrow>
        recv (src + off) = send_image mA dst ws bufA (dst + off)"
    and w: "(f, k, off) \<in> set ws"
  shows "ow_image recv src ws mB f k = mA f k"
proof (rule ow_image_value [OF w])
  fix off' assume w': "(f, k, off') \<in> set ws"
  have "send_image mA dst ws bufA (dst + off') = mA f k"
  proof (rule send_image_value [OF w'])
    fix f' k' assume "(f', k', off') \<in> set ws"
    from same [OF w' this] show "mA f' k' = mA f k" by simp
  qed
  with deliv [OF w'] show "recv (src + off') = mA f k" by simp
qed

lemma pack_send_buf:
  "commDataSend (dom (pack_send mt xf fd r g to base slot s)) =
     send_image (member (dom s)) base (rel_writes xf fd r) (commDataSend (dom s))"
proof -
  have "fst (field_loop xf fd (count r) (\<lambda>src destAddr. region_loop r (gather src destAddr))
               base (dom s))
        = (dom s)\<lparr>commDataSend := send_image (member (dom s)) base (rel_writes xf fd r)
                                      (commDataSend (dom s))\<rparr>"
    using block_writes [of gather xf fd r base "dom s", OF act_shift(1)]
    by (simp add: run_gather)
  then show ?thesis
    by (simp add: pack_send_def post_send_def case_prod_unfold)
qed

lemma concat_empties: "concat (map (\<lambda>i. []) xs) = []"
  by (induction xs) simp_all

lemma fits_Run: "fits (Run n idx)"
  by (auto simp: fits_def list_all_iff comp_def distinct_map inj_on_def)

lemma grid_rowmajor:
  "concat (map (\<lambda>i. map (\<lambda>j. int i * int m + int j) [0..<m]) [0..<n]) = map int [0..<n * m]"
proof (induction n)
  case 0
  then show ?case by simp
next
  case (Suc n)
  have split: "[0..<Suc n * m] = [0..<n * m] @ [n * m..<n * m + m]"
    using upt_add_eq_append [of 0 "n * m" m] by (simp add: add.commute)
  have "map (\<lambda>i. i + n * m) [0..<m] = [n * m..<n * m + m]"
    using map_add_upt [of "n * m" m] by (simp only: add.commute [of m])
  then have "map int [n * m..<n * m + m] = map int (map (\<lambda>i. i + n * m) [0..<m])"
    by (rule arg_cong [OF sym])
  also have "\<dots> = map (\<lambda>j. int n * int m + int j) [0..<m]"
    by (rule nth_equalityI) simp_all
  finally have last: "map int [n * m..<n * m + m] = map (\<lambda>j. int n * int m + int j) [0..<m]" .
  have "concat (map (\<lambda>i. map (\<lambda>j. int i * int m + int j) [0..<m]) [0..<Suc n])
      = concat (map (\<lambda>i. map (\<lambda>j. int i * int m + int j) [0..<m]) [0..<n])
        @ map (\<lambda>j. int n * int m + int j) [0..<m]"
    by simp
  also have "\<dots> = map int [0..<n * m] @ map int [n * m..<n * m + m]"
    by (simp only: Suc.IH last)
  also have "\<dots> = map int [0..<Suc n * m]"
    by (simp only: split map_append)
  finally show ?case .
qed

lemma fits_Grid:
  assumes "cnt = n2 * n1"
  shows "fits (Grid cnt n1 n2 (\<lambda>i j. i * n2 + j) fidx)"
proof (cases "0 < n2")
  case False
  then have "nat n2 = 0" by simp
  then show ?thesis by (simp add: fits_def concat_empties)
next
  case True
  then have n2: "n2 = int (nat n2)" by simp
  have fst: "map fst (cells (Grid cnt n1 n2 (\<lambda>i j. i * n2 + j) fidx)) = map int [0..<nat n1 * nat n2]"
    using grid_rowmajor [of "nat n2" "nat n1"] True
    by (simp add: map_concat comp_def)
  have d: "distinct (map fst (cells (Grid cnt n1 n2 (\<lambda>i j. i * n2 + j) fidx)))"
    unfolding fst by (simp add: distinct_map)
  have r: "0 \<le> b \<and> b < cnt" if "(b, k) \<in> set (cells (Grid cnt n1 n2 (\<lambda>i j. i * n2 + j) fidx))" for b k
  proof -
    from that have "fst (b, k) \<in> fst ` set (cells (Grid cnt n1 n2 (\<lambda>i j. i * n2 + j) fidx))"
      by (rule imageI)
    then have "b \<in> set (map fst (cells (Grid cnt n1 n2 (\<lambda>i j. i * n2 + j) fidx)))"
      by simp
    then obtain x where x: "x < nat n1 * nat n2" "b = int x" unfolding fst by auto
    then have "0 < nat n1" by (cases "nat n1") simp_all
    then have "int (nat n1 * nat n2) = n1 * n2" using True by simp
    with x have "0 \<le> b" "b < n1 * n2" by linarith+
    then show ?thesis using assms by (simp add: mult.commute)
  qed
  show ?thesis unfolding fits_def using d r by (auto simp: list_all_iff)
qed

lemma fits_region_of: "fits (region_of dx dy dz g)"
  unfolding region_of_def by (simp add: fits_Run fits_Grid)

text \<open>
  The receives of \<open>CommRecv\<close>: the guards of \<open>recv_order\<close> (its first six when
  \<open>planeOnly\<close>) that hold, without those that test \<open>doRecv\<close> when it is false.
\<close>

lemma recv_guards:
  assumes "numRanks d \<noteq> 1"
  shows "map c_guard (calls (CommRecv pad r d mt xf dx dy dz doRecv planeOnly)) =
           filter (\<lambda>g. holds (boundaryFlag d) g \<and> (doRecv \<or> g \<in> set upper_guards))
             (if planeOnly then take 6 recv_order else recv_order)"
  using assms
  apply (cases "boundaryFlag d RowMin"; cases "boundaryFlag d RowMax"; cases "boundaryFlag d ColMin";
         cases "boundaryFlag d ColMax"; cases "boundaryFlag d PlaneMin"; cases "boundaryFlag d PlaneMax";
         cases doRecv; cases planeOnly)
  apply (simp_all add: CommRecv_def Let_def seq_def recv_order_def upper_guards_def
                  del: boundaryFlag.simps)
  done

lemma recv_guards_all:
  assumes "numRanks d \<noteq> 1"
  shows "map c_guard (calls (CommRecv pad r d mt xf dx dy dz True False)) =
           filter (holds (boundaryFlag d)) recv_order"
  using recv_guards [OF assms, of pad r mt xf dx dy dz True False] by simp

lemma peer_ok_recv:
  "fr = r + rank_off t (dir_of g) \<Longrightarrow> peer_ok t r s \<Longrightarrow> peer_ok t r (recv_plane fl mt mpc g en fr cnt s)"
  "fr = r + rank_off t (dir_of g) \<Longrightarrow> peer_ok t r s \<Longrightarrow> peer_ok t r (recv_edge fl mt mpc mec g en fr cnt s)"
  "fr = r + rank_off t (dir_of g) \<Longrightarrow> peer_ok t r s \<Longrightarrow> peer_ok t r (recv_corner fl mt mpc mec pad g en fr cnt s)"
  "peer_ok t r s \<Longrightarrow> peer_ok t r (clear_recvRequest s)"
  by (simp_all add: peer_ok_def)

lemma rank_off_guard:
  "r - t * t = r + rank_off t (dir_of [PlaneMin])"
  "r + t * t = r + rank_off t (dir_of [PlaneMax])"
  "r - t = r + rank_off t (dir_of [RowMin])"
  "r + t = r + rank_off t (dir_of [RowMax])"
  "r - 1 = r + rank_off t (dir_of [ColMin])"
  "r + 1 = r + rank_off t (dir_of [ColMax])"
  "r - t - 1 = r + rank_off t (dir_of [RowMin, ColMin])"
  "r - t * t - t = r + rank_off t (dir_of [RowMin, PlaneMin])"
  "r - t * t - 1 = r + rank_off t (dir_of [ColMin, PlaneMin])"
  "r + t + 1 = r + rank_off t (dir_of [RowMax, ColMax])"
  "r + t * t + t = r + rank_off t (dir_of [RowMax, PlaneMax])"
  "r + t * t + 1 = r + rank_off t (dir_of [ColMax, PlaneMax])"
  "r + t - 1 = r + rank_off t (dir_of [RowMax, ColMin])"
  "r + t * t - t = r + rank_off t (dir_of [RowMin, PlaneMax])"
  "r + t * t - 1 = r + rank_off t (dir_of [ColMin, PlaneMax])"
  "r - t + 1 = r + rank_off t (dir_of [RowMin, ColMax])"
  "r - t * t + t = r + rank_off t (dir_of [RowMax, PlaneMin])"
  "r - t * t + 1 = r + rank_off t (dir_of [ColMax, PlaneMin])"
  "r - t * t - t - 1 = r + rank_off t (dir_of [RowMin, ColMin, PlaneMin])"
  "r + t * t - t - 1 = r + rank_off t (dir_of [RowMin, ColMin, PlaneMax])"
  "r - t * t - t + 1 = r + rank_off t (dir_of [RowMin, ColMax, PlaneMin])"
  "r + t * t - t + 1 = r + rank_off t (dir_of [RowMin, ColMax, PlaneMax])"
  "r - t * t + t - 1 = r + rank_off t (dir_of [RowMax, ColMin, PlaneMin])"
  "r + t * t + t - 1 = r + rank_off t (dir_of [RowMax, ColMin, PlaneMax])"
  "r - t * t + t + 1 = r + rank_off t (dir_of [RowMax, ColMax, PlaneMin])"
  "r + t * t + t + 1 = r + rank_off t (dir_of [RowMax, ColMax, PlaneMax])"
  by (simp_all add: rank_off_def dir_of_def axis_def power2_eq_square)

lemma CommRecv_peer_ok: "peer_ok (tp d) r (CommRecv pad r d mt xf dx dy dz doRecv planeOnly)"
proof (cases "numRanks d = 1")
  case True
  then show ?thesis by (simp add: CommRecv_def peer_ok_def)
next
  case False
  have start: "peer_ok (tp d) r (init_state d)" by (simp add: peer_ok_def)
  show ?thesis
    unfolding CommRecv_def Let_def
    apply (simp only: False if_False)
    apply (rule seq_inv [where I = "peer_ok (tp d) r"])
     prefer 2 apply (rule start)
    subgoal for f s
      apply (cases planeOnly)
       apply (simp only: if_True if_False not_True_eq_False not_False_eq_True append_Nil2
          set_simps set_append insert_iff empty_iff Un_iff)
       apply (elim disjE FalseE; hypsubst; intro peer_ok_recv rank_off_guard; assumption)
      apply (simp only: if_True if_False not_True_eq_False not_False_eq_True append_Nil2
          set_simps set_append insert_iff empty_iff Un_iff)
      apply (elim disjE FalseE; hypsubst; intro peer_ok_recv rank_off_guard; assumption)
      done
    done
qed

lemma recv_kinds:
  "list_all (\<lambda>c. c_kind c = Irecv) (calls (CommRecv pad r d mt xf dx dy dz doRecv planeOnly))"
proof (cases "numRanks d = 1")
  case True
  then show ?thesis by (simp add: CommRecv_def)
next
  case False
  show ?thesis
    unfolding CommRecv_def Let_def
    apply (simp only: False if_False)
    apply (rule seq_inv [where I = "\<lambda>s. list_all (\<lambda>c. c_kind c = Irecv) (calls s)"])
     prefer 2 apply simp
    subgoal for f s
      apply (simp only: in_set_if set_simps set_append insert_iff empty_iff Un_iff)
      apply (elim disjE conjE FalseE; hypsubst; simp)
      done
    done
qed

lemma peer_ok_send:
  "to = r + rank_off t (dir_of g) \<Longrightarrow> peer_ok t r s \<Longrightarrow> peer_ok t r (send_plane fl mt xf fd dx dy dz mpc g en to s)"
  "to = r + rank_off t (dir_of g) \<Longrightarrow> peer_ok t r s \<Longrightarrow> peer_ok t r (send_edge fl mt xf fd dx dy dz mpc mec g en to s)"
  "to = r + rank_off t (dir_of g) \<Longrightarrow> peer_ok t r s \<Longrightarrow> peer_ok t r (send_corner fl mt xf fd dx dy dz mpc mec pad g en to s)"
  "peer_ok t r s \<Longrightarrow> peer_ok t r (clear_sendRequest s)"
  "peer_ok t r s \<Longrightarrow> peer_ok t r (waitall_send s)"
  by (simp_all add: peer_ok_def send_plane_def send_edge_def send_corner_def pack_send_def
        post_send_def waitall_send_def Let_def split: prod.splits)

lemma CommSend_peer_ok: "peer_ok (tp d) r (CommSend pad r d mt xf fd dx dy dz doSend planeOnly)"
proof (cases "numRanks d = 1")
  case True
  then show ?thesis by (simp add: CommSend_def peer_ok_def)
next
  case False
  have start: "peer_ok (tp d) r (init_state d)" by (simp add: peer_ok_def)
  show ?thesis
    unfolding CommSend_def Let_def
    apply (simp only: False if_False)
    apply (rule seq_inv [where I = "peer_ok (tp d) r"])
     prefer 2 apply (rule start)
    subgoal for f s
      apply (simp only: in_set_if set_simps set_append insert_iff empty_iff Un_iff)
      apply (elim disjE conjE FalseE; hypsubst; intro peer_ok_send rank_off_guard; assumption)
      done
    done
qed

lemma dirs_list:
  "map dir_of recv_order =
     [(0,0,-1), (0,0,1), (0,-1,0), (0,1,0), (-1,0,0), (1,0,0),
      (-1,-1,0), (0,-1,-1), (-1,0,-1), (1,1,0), (0,1,1), (1,0,1),
      (-1,1,0), (0,-1,1), (-1,0,1), (1,-1,0), (0,1,-1), (1,0,-1),
      (-1,-1,-1), (-1,-1,1), (1,-1,-1), (1,-1,1), (-1,1,-1), (-1,1,1), (1,1,-1), (1,1,1)]"
  by (simp add: dir_of_def axis_def recv_order_def)

lemma dirs_distinct: "distinct (map dir_of recv_order)"
  unfolding dirs_list by simp

lemma dirs_enum1: "is_direction v \<Longrightarrow> v \<in> set (map dir_of recv_order)"
  unfolding dirs_list is_direction_def
  by (cases v) (simp, elim conjE disjE; simp)

lemma dirs_enum2: "v \<in> set (map dir_of recv_order) \<Longrightarrow> is_direction v"
  unfolding dirs_list is_direction_def
  by (cases v) (simp, elim conjE disjE; simp)


lemma flag_lt:
  assumes "in_grid d"
  shows "boundaryFlag d RowMax = (rowLoc d < tp d - 1)"
    "boundaryFlag d ColMax = (colLoc d < tp d - 1)"
    "boundaryFlag d PlaneMax = (planeLoc d < tp d - 1)"
  using assms by (auto simp: in_grid_def)

lemma holds_active:
  assumes "in_grid d" "g \<in> set recv_order"
  shows "holds (boundaryFlag d) g = active d (dir_of g)"
proof -
  from assms(2) have "g \<in> set recv_order" .
  then show ?thesis
    unfolding recv_order_def
    apply (simp only: set_simps insert_iff empty_iff)
    apply (elim disjE FalseE)
    apply (simp_all add: flag_lt [OF assms(1)] active_def dir_of_def axis_def del: boundaryFlag.simps)
    apply auto
    done
qed

lemma active_no_wrap:
  "in_grid d \<Longrightarrow> is_direction v \<Longrightarrow> active d v \<Longrightarrow> neighbour_in_grid d v"
  apply (cases v)
  apply (simp add: in_grid_def is_direction_def active_def neighbour_in_grid_def)
  apply (elim conjE disjE; simp)
  done

lemma in_grid_tp1: "in_grid d \<Longrightarrow> tp d = 1 \<Longrightarrow> is_direction v \<Longrightarrow> \<not> active d v"
  apply (cases v)
  apply (simp add: in_grid_def is_direction_def active_def)
  apply (elim conjE disjE; simp)
  done


lemma count_list_distinct:
  "distinct xs \<Longrightarrow> count_list xs x = (if x \<in> set xs then 1 else 0)"
  by (induction xs) auto


lemma blank_simps [simp]: "numRanks blank = 27" "tp blank = 3"
  by (simp_all add: blank_def)

lemma blank_flags [simp]:
  "boundaryFlag blank f" 
  by (cases f) (simp_all add: blank_def)

lemma blank_recv_calls:
  "map (\<lambda>c. (c_guard c, c_peer c)) (calls (CommRecv 16 13 blank 1 6 3 3 3 True False)) =
   [([PlaneMin], 4), ([PlaneMax], 22), ([RowMin], 10), ([RowMax], 16), ([ColMin], 12), ([ColMax], 14),
    ([RowMin, ColMin], 9), ([RowMin, PlaneMin], 1), ([ColMin, PlaneMin], 3),
    ([RowMax, ColMax], 17), ([RowMax, PlaneMax], 25), ([ColMax, PlaneMax], 23),
    ([RowMax, ColMin], 15), ([RowMin, PlaneMax], 19), ([ColMin, PlaneMax], 21),
    ([RowMin, ColMax], 11), ([RowMax, PlaneMin], 7), ([ColMax, PlaneMin], 5),
    ([RowMin, ColMin, PlaneMin], 0), ([RowMin, ColMin, PlaneMax], 18),
    ([RowMin, ColMax, PlaneMin], 2), ([RowMin, ColMax, PlaneMax], 20),
    ([RowMax, ColMin, PlaneMin], 6), ([RowMax, ColMin, PlaneMax], 24),
    ([RowMax, ColMax, PlaneMin], 8), ([RowMax, ColMax, PlaneMax], 26)]"
  by (simp add: CommRecv_def Let_def seq_def del: boundaryFlag.simps)

lemma blank_send_calls:
  "map c_kind (calls (CommSend 16 13 blank 1 6 posvel_fields 3 3 3 True False)) = replicate 26 Isend @ [Waitall]"
  "map c_peer (calls (CommSend 16 13 blank 1 6 posvel_fields 3 3 3 True False)) =
     [4, 22, 10, 16, 12, 14, 9, 1, 3, 17, 25, 23, 15, 19, 21, 11, 7, 5, 0, 18, 2, 20, 6, 24, 8, 26, 0]"
  "map c_guard (calls (CommSend 16 13 blank 1 6 posvel_fields 3 3 3 True False)) = recv_order @ [[]]"
    apply (simp add: CommSend_def Let_def seq_def eval_nat_numeral del: boundaryFlag.simps)
   apply (simp add: CommSend_def Let_def seq_def del: boundaryFlag.simps)
  apply (simp add: CommSend_def Let_def seq_def recv_order_def del: boundaryFlag.simps)
  done

lemma send_log:
  assumes "numRanks d \<noteq> 1"
  shows "map (\<lambda>c. (c_kind c, c_guard c)) (calls (CommSend pad r d mt xf fd dx dy dz doSend planeOnly)) =
           map (Pair Isend) (filter (\<lambda>g. holds (boundaryFlag d) g \<and> (doSend \<or> g \<notin> set upper_guards))
             (if planeOnly then take 6 recv_order else recv_order)) @ [(Waitall, [])]"
  using assms
  apply (cases "boundaryFlag d RowMin"; cases "boundaryFlag d RowMax"; cases "boundaryFlag d ColMin";
         cases "boundaryFlag d ColMax"; cases "boundaryFlag d PlaneMin"; cases "boundaryFlag d PlaneMax";
         cases doSend; cases planeOnly)
  apply (simp_all add: CommSend_def Let_def seq_def recv_order_def upper_guards_def
                  del: boundaryFlag.simps)
  done

lemma sent_dirs_eq:
  assumes "numRanks d \<noteq> 1"
  shows "sent_dirs (CommSend pad r d mt xf fd dx dy dz doSend planeOnly) =
           map dir_of (filter (\<lambda>g. holds (boundaryFlag d) g \<and> (doSend \<or> g \<notin> set upper_guards))
             (if planeOnly then take 6 recv_order else recv_order))"
proof -
  let ?s = "CommSend pad r d mt xf fd dx dy dz doSend planeOnly"
  have "sent_dirs ?s = map (\<lambda>p. dir_of (snd p)) (filter (\<lambda>p. fst p = Isend) (map (\<lambda>c. (c_kind c, c_guard c)) (calls ?s)))"
    by (simp add: sent_dirs_def filter_map comp_def)
  also have "\<dots> = map dir_of (filter (\<lambda>g. holds (boundaryFlag d) g \<and> (doSend \<or> g \<notin> set upper_guards))
             (if planeOnly then take 6 recv_order else recv_order))"
    unfolding send_log [OF assms] by (simp add: filter_map comp_def)
  finally show ?thesis .
qed

lemma guard_classes:
  assumes "g \<in> set recv_order"
  shows "g \<in> set upper_guards \<longleftrightarrow> upper (dir_of g)"
    and "g \<in> set (take 6 recv_order) \<longleftrightarrow> is_face (dir_of g)"
  using assms unfolding recv_order_def
   apply (simp_all only: set_simps insert_iff empty_iff)
   apply (elim disjE FalseE; simp add: upper_guards_def upper_def dir_of_def axis_def)
  apply (elim disjE FalseE; simp add: is_face_def dir_of_def axis_def)
  done

lemma rank_off_sign:
  assumes "g \<in> set recv_order" "2 \<le> t"
  shows "g \<in> set upper_guards \<Longrightarrow> 0 < rank_off t (dir_of g)"
    and "g \<notin> set upper_guards \<Longrightarrow> rank_off t (dir_of g) < 0"
proof -
  have sq: "2 * t \<le> t * t" using assms(2) by (simp add: mult_right_mono)
  have lin: "0 < t * t + t" "1 < t * t" "1 < t * t - t" "1 < t * t + t" "0 < t * t"
    "0 < t * t - t" "0 < t * t - 1" "0 < t * t - t - 1" "0 < t * t + t - 1" "0 < t * t - t + 1"
    using sq assms(2) by linarith+
  show "g \<in> set upper_guards \<Longrightarrow> 0 < rank_off t (dir_of g)"
    using assms(1) unfolding recv_order_def
    apply (simp only: set_simps insert_iff empty_iff)
    apply (elim disjE FalseE; simp add: upper_guards_def rank_off_def dir_of_def axis_def power2_eq_square)
    apply (insert lin assms(2), linarith+)
    done
  show "g \<notin> set upper_guards \<Longrightarrow> rank_off t (dir_of g) < 0"
    using assms(1) unfolding recv_order_def
    apply (simp only: set_simps insert_iff empty_iff)
    apply (elim disjE FalseE; simp add: upper_guards_def rank_off_def dir_of_def axis_def power2_eq_square)
    apply (insert lin assms(2), linarith+)
    done
qed

lemma in_order_list:
  "g \<in> set (if planeOnly then take 6 recv_order else recv_order) \<longleftrightarrow>
     g \<in> set recv_order \<and> (planeOnly \<longrightarrow> g \<in> set (take 6 recv_order))"
  using set_take_subset [of 6 recv_order] by auto

lemma dir_of_mem:
  "(\<exists>g \<in> set recv_order. dir_of g = v \<and> Q (dir_of g)) \<longleftrightarrow> is_direction v \<and> Q v"
  using dirs_enum1 [of v] dirs_enum2 [of v] by auto

lemma sent_mem:
  assumes "in_grid d" "numRanks d \<noteq> 1"
  shows "v \<in> set (sent_dirs (CommSend pad r d mt xf fd dx dy dz doSend planeOnly)) \<longleftrightarrow>
           is_direction v \<and> active d v \<and> (doSend \<or> \<not> upper v) \<and> (planeOnly \<longrightarrow> is_face v)"
proof -
  have "v \<in> set (sent_dirs (CommSend pad r d mt xf fd dx dy dz doSend planeOnly)) \<longleftrightarrow>
      (\<exists>g \<in> set recv_order. dir_of g = v \<and>
         (holds (boundaryFlag d) g \<and> (doSend \<or> g \<notin> set upper_guards) \<and> (planeOnly \<longrightarrow> g \<in> set (take 6 recv_order))))"
    unfolding sent_dirs_eq [OF assms(2)] by (auto simp: in_order_list)
  also have "\<dots> \<longleftrightarrow> (\<exists>g \<in> set recv_order. dir_of g = v \<and>
         (active d (dir_of g) \<and> (doSend \<or> \<not> upper (dir_of g)) \<and> (planeOnly \<longrightarrow> is_face (dir_of g))))"
    using holds_active [OF assms(1)] guard_classes by (intro bex_cong refl) simp
  also have "\<dots> \<longleftrightarrow> is_direction v \<and> active d v \<and> (doSend \<or> \<not> upper v) \<and> (planeOnly \<longrightarrow> is_face v)"
    by (rule dir_of_mem)
  finally show ?thesis .
qed

lemma posted_dirs_eq:
  assumes "numRanks d \<noteq> 1"
  shows "posted_dirs (CommRecv pad r d mt xf dx dy dz doRecv planeOnly) =
           map dir_of (filter (\<lambda>g. holds (boundaryFlag d) g \<and> (doRecv \<or> g \<in> set upper_guards))
             (if planeOnly then take 6 recv_order else recv_order))"
proof -
  have "posted_dirs (CommRecv pad r d mt xf dx dy dz doRecv planeOnly)
      = map dir_of (map c_guard (calls (CommRecv pad r d mt xf dx dy dz doRecv planeOnly)))"
    by (simp add: posted_dirs_def)
  then show ?thesis by (simp only: recv_guards [OF assms])
qed

lemma posted_mem:
  assumes "in_grid d" "numRanks d \<noteq> 1"
  shows "v \<in> set (posted_dirs (CommRecv pad r d mt xf dx dy dz doRecv planeOnly)) \<longleftrightarrow>
           is_direction v \<and> active d v \<and> (doRecv \<or> upper v) \<and> (planeOnly \<longrightarrow> is_face v)"
proof -
  have "v \<in> set (posted_dirs (CommRecv pad r d mt xf dx dy dz doRecv planeOnly)) \<longleftrightarrow>
      (\<exists>g \<in> set recv_order. dir_of g = v \<and>
         (holds (boundaryFlag d) g \<and> (doRecv \<or> g \<in> set upper_guards) \<and> (planeOnly \<longrightarrow> g \<in> set (take 6 recv_order))))"
    unfolding posted_dirs_eq [OF assms(2)] by (auto simp: in_order_list)
  also have "\<dots> \<longleftrightarrow> (\<exists>g \<in> set recv_order. dir_of g = v \<and>
         (active d (dir_of g) \<and> (doRecv \<or> upper (dir_of g)) \<and> (planeOnly \<longrightarrow> is_face (dir_of g))))"
    using holds_active [OF assms(1)] guard_classes by (intro bex_cong refl) simp
  also have "\<dots> \<longleftrightarrow> is_direction v \<and> active d v \<and> (doRecv \<or> upper v) \<and> (planeOnly \<longrightarrow> is_face v)"
    by (rule dir_of_mem)
  finally show ?thesis .
qed

lemma order_distinct:
  "distinct (map dir_of (if planeOnly then take 6 recv_order else recv_order))"
  using dirs_distinct by (simp add: recv_order_def dir_of_def axis_def)

lemma sent_distinct:
  "numRanks d \<noteq> 1 \<Longrightarrow> distinct (sent_dirs (CommSend pad r d mt xf fd dx dy dz doSend planeOnly))"
  unfolding sent_dirs_eq by (rule distinct_map_filter [OF order_distinct])

lemma opposite_direction: "is_direction v \<Longrightarrow> is_direction (opposite v)"
  by (cases v) (simp add: is_direction_def opposite_def, elim conjE disjE; simp)

lemma opposite_face: "is_face (opposite v) = is_face v"
  by (cases v) (simp add: opposite_def is_face_def)

lemma opposite_upper: "is_direction v \<Longrightarrow> upper (opposite v) = (\<not> upper v)"
  by (cases v) (simp add: is_direction_def opposite_def upper_def, elim conjE disjE; simp)

lemma neighbour_active:
  assumes "in_grid A" "in_grid B" "neighbour_at A B v" "is_direction v"
  shows "active A v \<and> active B (opposite v)"
proof (cases v)
  case (fields a b c)
  with assms show ?thesis
    by (simp add: in_grid_def neighbour_at_def active_def is_direction_def opposite_def)
qed

lemma recv_call_guard:
  assumes "numRanks d \<noteq> 1" "c \<in> set (calls (CommRecv pad r d mt xf dx dy dz doRecv planeOnly))"
  shows "c_guard c \<in> set recv_order \<and> holds (boundaryFlag d) (c_guard c)
         \<and> (doRecv \<or> c_guard c \<in> set upper_guards)
         \<and> (planeOnly \<longrightarrow> c_guard c \<in> set (take 6 recv_order))"
proof -
  from assms(2) have "c_guard c \<in> set (map c_guard (calls (CommRecv pad r d mt xf dx dy dz doRecv planeOnly)))"
    by simp
  then show ?thesis
    unfolding recv_guards [OF assms(1)] by (simp add: in_order_list)
qed

lemma recv_guard_posted:
  assumes "numRanks d \<noteq> 1" "g \<in> set recv_order" "holds (boundaryFlag d) g"
    "doRecv \<or> g \<in> set upper_guards" "planeOnly \<longrightarrow> g \<in> set (take 6 recv_order)"
  shows "g \<in> set (map c_guard (calls (CommRecv pad r d mt xf dx dy dz doRecv planeOnly)))"
  unfolding recv_guards [OF assms(1)] using assms(2-5) by (simp add: in_order_list)

lemma send_call_guard:
  assumes "numRanks d \<noteq> 1" "c \<in> set (calls (CommSend pad r d mt xf fd dx dy dz doSend planeOnly))"
    "c_kind c = Isend"
  shows "c_guard c \<in> set recv_order \<and> holds (boundaryFlag d) (c_guard c)
         \<and> (doSend \<or> c_guard c \<notin> set upper_guards)
         \<and> (planeOnly \<longrightarrow> c_guard c \<in> set (take 6 recv_order))"
proof -
  from assms(2,3) have "(Isend, c_guard c) \<in> set (map (\<lambda>c. (c_kind c, c_guard c)) (calls (CommSend pad r d mt xf fd dx dy dz doSend planeOnly)))"
    by force
  then show ?thesis
    unfolding send_log [OF assms(1)] by (auto simp: in_order_list)
qed

lemma send_guard_sent:
  assumes "numRanks d \<noteq> 1" "g \<in> set recv_order" "holds (boundaryFlag d) g"
    "doSend \<or> g \<notin> set upper_guards" "planeOnly \<longrightarrow> g \<in> set (take 6 recv_order)"
  shows "g \<in> set (map c_guard (calls (CommSend pad r d mt xf fd dx dy dz doSend planeOnly)))"
proof -
  have "(Isend, g) \<in> set (map (\<lambda>c. (c_kind c, c_guard c)) (calls (CommSend pad r d mt xf fd dx dy dz doSend planeOnly)))"
    unfolding send_log [OF assms(1)] using assms(2-5) by (simp add: in_order_list)
  then show ?thesis by auto
qed

lemma recv_call_peer:
  assumes "c \<in> set (calls (CommRecv pad r d mt xf dx dy dz doRecv planeOnly))"
  shows "c_peer c = r + rank_off (tp d) (dir_of (c_guard c))"
  using assms CommRecv_peer_ok [of d r pad mt xf dx dy dz doRecv planeOnly]
    recv_kinds [of pad r d mt xf dx dy dz doRecv planeOnly]
  by (auto simp: peer_ok_def list_all_iff)

lemma send_call_peer:
  assumes "c \<in> set (calls (CommSend pad r d mt xf fd dx dy dz doSend planeOnly))" "c_kind c = Isend"
  shows "c_peer c = r + rank_off (tp d) (dir_of (c_guard c))"
  using assms CommSend_peer_ok [of d r pad mt xf fd dx dy dz doSend planeOnly]
  by (auto simp: peer_ok_def list_all_iff)

subsection \<open>Topology of the posted receives\<close>

text \<open>
  C1. For every \<open>tp \<ge> 1\<close> and every position in \<open>[0, tp)\<^sup>3\<close>, \<open>CommRecv\<close> with
  \<open>doRecv = true\<close> and \<open>planeOnly = false\<close> posts exactly one receive for each of the 26
  directions that are active at the position and none for any other direction, and the
  neighbour in every posted direction lies inside the grid. The domain is one of a run:
  \<open>numRanks = 1\<close> only when \<open>tp = 1\<close> (the mesh decomposition gives \<open>numRanks = tp\<^sup>3\<close>).
\<close>
theorem CommRecv_posts_exactly_active_directions:
  assumes "in_grid d" and "numRanks d = 1 \<longrightarrow> tp d = 1"
  shows "(\<forall>v. count_list (posted_dirs (CommRecv pad myRank d msgType xferFields dx dy dz True False)) v
               = (if is_direction v \<and> active d v then 1 else 0))
         \<and> (\<forall>v \<in> set (posted_dirs (CommRecv pad myRank d msgType xferFields dx dy dz True False)).
               neighbour_in_grid d v)"
proof (cases "numRanks d = 1")
  case True
  with assms have "tp d = 1" by simp
  with assms(1) have "\<not> (is_direction v \<and> active d v)" for v
    using in_grid_tp1 by blast
  moreover have "posted_dirs (CommRecv pad myRank d msgType xferFields dx dy dz True False) = []"
    using True by (simp add: CommRecv_def posted_dirs_def)
  ultimately show ?thesis by simp
next
  case False
  let ?ds = "posted_dirs (CommRecv pad myRank d msgType xferFields dx dy dz True False)"
  have eq: "?ds = map dir_of (filter (holds (boundaryFlag d)) recv_order)"
  proof -
    have "?ds = map dir_of (map c_guard (calls (CommRecv pad myRank d msgType xferFields dx dy dz True False)))"
      by (simp add: posted_dirs_def)
    then show ?thesis
      by (simp only: recv_guards_all [OF False])
  qed
  have dist: "distinct ?ds"
    unfolding eq by (rule distinct_map_filter [OF dirs_distinct])
  have mem: "v \<in> set ?ds \<longleftrightarrow> is_direction v \<and> active d v" for v
  proof -
    have "v \<in> set ?ds \<longleftrightarrow> (\<exists>g \<in> set recv_order. holds (boundaryFlag d) g \<and> dir_of g = v)"
      unfolding eq by auto
    also have "\<dots> \<longleftrightarrow> (\<exists>g \<in> set recv_order. active d (dir_of g) \<and> dir_of g = v)"
      using holds_active [OF assms(1)] by blast
    also have "\<dots> \<longleftrightarrow> v \<in> set (map dir_of recv_order) \<and> active d v"
      by auto
    also have "\<dots> \<longleftrightarrow> is_direction v \<and> active d v"
      using dirs_enum1 dirs_enum2 by blast
    finally show ?thesis .
  qed
  have "count_list ?ds v = (if is_direction v \<and> active d v then 1 else 0)" for v
    using dist mem [of v] by (simp add: count_list_distinct)
  moreover have "neighbour_in_grid d v" if "v \<in> set ?ds" for v
    using that mem [of v] active_no_wrap [OF assms(1)] by blast
  ultimately show ?thesis by blast
qed


theorem CommRecv_posts_exactly_active_directions_witness:
  "in_grid blank \<and> numRanks blank \<noteq> 1
   \<and> count_list (posted_dirs (CommRecv 16 13 blank 1 6 3 3 3 True False)) (1, -1, 1) = 1
   \<and> (1, -1, 1) \<in> set (posted_dirs (CommRecv 16 13 blank 1 6 3 3 3 True False))
   \<and> neighbour_in_grid blank (1, -1, 1)
   \<and> count_list (posted_dirs (CommRecv 16 13 (blank\<lparr>colLoc := 2\<rparr>) 1 6 3 3 3 True False)) (1, -1, 1) = 0"
proof -
  have g: "in_grid blank" "numRanks blank = 1 \<longrightarrow> tp blank = 1"
    "in_grid (blank\<lparr>colLoc := 2\<rparr>)" "numRanks (blank\<lparr>colLoc := 2\<rparr>) = 1 \<longrightarrow> tp (blank\<lparr>colLoc := 2\<rparr>) = 1"
    by (simp_all add: in_grid_def blank_def)
  have a: "is_direction (1, -1, 1)" "active blank (1, -1, 1)" "\<not> active (blank\<lparr>colLoc := 2\<rparr>) (1, -1, 1)"
    by (simp_all add: is_direction_def active_def blank_def)
  note t = CommRecv_posts_exactly_active_directions [OF g(1,2), of 16 13 1 6 3 3 3]
  note u = CommRecv_posts_exactly_active_directions [OF g(3,4), of 16 13 1 6 3 3 3]
  from t a have c: "count_list (posted_dirs (CommRecv 16 13 blank 1 6 3 3 3 True False)) (1, -1, 1) = 1"
    by simp
  then have m: "(1, -1, 1) \<in> set (posted_dirs (CommRecv 16 13 blank 1 6 3 3 3 True False))"
    using count_list_0_iff [of "posted_dirs (CommRecv 16 13 blank 1 6 3 3 3 True False)" "(1, -1, 1)"]
    by simp
  with t have n: "neighbour_in_grid blank (1, -1, 1)" by blast
  from u a have z: "count_list (posted_dirs (CommRecv 16 13 (blank\<lparr>colLoc := 2\<rparr>) 1 6 3 3 3 True False)) (1, -1, 1) = 0"
    by simp
  have "numRanks blank \<noteq> 1" by (simp add: blank_def)
  with g c m n z show ?thesis by blast
qed


subsection \<open>Neighbour ranks\<close>

text \<open>
  C5. With \<open>(dx, dy, dz)\<close> the direction of the block (\<open>dx\<close> along col, \<open>dy\<close> along row,
  \<open>dz\<close> along plane), every receive \<open>CommRecv\<close> posts names the source rank
  \<open>myRank + dz tp\<^sup>2 + dy tp + dx\<close>, and every send \<open>CommSend\<close> issues names that rank as
  destination, whatever the flags \<open>doRecv\<close>, \<open>doSend\<close> and \<open>planeOnly\<close>.
\<close>

theorem neighbour_rank_of_direction:
  "(\<forall>c \<in> set (calls (CommRecv pad myRank d msgType xferFields dx dy dz doRecv planeOnly)).
      c_peer c = myRank + rank_off (tp d) (dir_of (c_guard c)))
   \<and> (\<forall>c \<in> set (calls (CommSend pad myRank d msgType xferFields fieldData dx dy dz doSend planeOnly)).
      c_kind c = Isend \<longrightarrow> c_peer c = myRank + rank_off (tp d) (dir_of (c_guard c)))"
proof -
  have "c_kind c \<noteq> Waitall"
    if "c \<in> set (calls (CommRecv pad myRank d msgType xferFields dx dy dz doRecv planeOnly))" for c
  proof -
    have "list_all (\<lambda>c. c_kind c = Irecv) (calls (CommRecv pad myRank d msgType xferFields dx dy dz doRecv planeOnly))"
      by (rule recv_kinds)
    with that show ?thesis by (auto simp: list_all_iff)
  qed
  then show ?thesis
    using CommRecv_peer_ok [of d myRank pad msgType xferFields dx dy dz doRecv planeOnly]
      CommSend_peer_ok [of d myRank pad msgType xferFields fieldData dx dy dz doSend planeOnly]
    by (auto simp: peer_ok_def list_all_iff)
qed


theorem neighbour_rank_of_direction_witness:
  "last (calls (CommRecv 16 13 blank 1 6 3 3 3 True False))
     \<in> set (calls (CommRecv 16 13 blank 1 6 3 3 3 True False))
   \<and> c_guard (last (calls (CommRecv 16 13 blank 1 6 3 3 3 True False))) = [RowMax, ColMax, PlaneMax]
   \<and> c_peer (last (calls (CommRecv 16 13 blank 1 6 3 3 3 True False))) = 26
   \<and> 26 = 13 + rank_off (tp blank) (dir_of [RowMax, ColMax, PlaneMax])
   \<and> hd (calls (CommSend 16 13 blank 1 6 posvel_fields 3 3 3 True False))
     \<in> set (calls (CommSend 16 13 blank 1 6 posvel_fields 3 3 3 True False))
   \<and> c_kind (hd (calls (CommSend 16 13 blank 1 6 posvel_fields 3 3 3 True False))) = Isend
   \<and> c_guard (hd (calls (CommSend 16 13 blank 1 6 posvel_fields 3 3 3 True False))) = [PlaneMin]
   \<and> c_peer (hd (calls (CommSend 16 13 blank 1 6 posvel_fields 3 3 3 True False))) = 4
   \<and> 4 = 13 + rank_off (tp blank) (dir_of [PlaneMin])"
proof -
  let ?X = "calls (CommRecv 16 13 blank 1 6 3 3 3 True False)"
  let ?Y = "calls (CommSend 16 13 blank 1 6 posvel_fields 3 3 3 True False)"
  have X: "?X \<noteq> []" using blank_recv_calls by auto
  have Y: "?Y \<noteq> []" using blank_send_calls(1) by auto
  have lx: "(c_guard (last ?X), c_peer (last ?X)) = ([RowMax, ColMax, PlaneMax], 26)"
    using last_map [OF X, of "\<lambda>c. (c_guard c, c_peer c)"] by (simp only: blank_recv_calls) simp
  have hy: "c_kind (hd ?Y) = Isend" "c_guard (hd ?Y) = [PlaneMin]" "c_peer (hd ?Y) = 4"
    using hd_map [OF Y, of c_kind] hd_map [OF Y, of c_guard] hd_map [OF Y, of c_peer]
    by (simp_all only: blank_send_calls) (simp_all add: recv_order_def eval_nat_numeral)
  have mx: "last ?X \<in> set ?X" using X by simp
  have my: "hd ?Y \<in> set ?Y" using Y by simp
  note t = neighbour_rank_of_direction [where pad = 16 and myRank = 13 and d = blank and msgType = 1
      and xferFields = 6 and dx = 3 and dy = 3 and dz = 3 and doRecv = True and planeOnly = False
      and fieldData = posvel_fields and doSend = True]
  from t mx have "c_peer (last ?X) = 13 + rank_off (tp blank) (dir_of (c_guard (last ?X)))" by blast
  moreover from t my hy have "c_peer (hd ?Y) = 13 + rank_off (tp blank) (dir_of (c_guard (hd ?Y)))" by blast
  moreover have "13 + rank_off (tp blank) (dir_of [RowMax, ColMax, PlaneMax]) = 26"
    "13 + rank_off (tp blank) (dir_of [PlaneMin]) = 4"
    by (simp_all add: rank_off_def dir_of_def axis_def)
  ultimately show ?thesis using lx hy mx my by (simp only: prod.inject simp_thms)
qed

subsection \<open>Slot tables\<close>

text \<open>
  C6. The traversal of \<open>CommSBN\<close> gives every direction the buffer offset
  \<open>pmsg * maxPlaneComm + emsg * maxEdgeComm + cmsg * pad\<close> and the request slot
  \<open>pmsg + emsg + cmsg\<close> that \<open>CommRecv\<close> with \<open>doRecv = true\<close>, \<open>planeOnly = false\<close> and the
  same \<open>xferFields\<close> gave it when posting, and the traversal of \<open>CommSyncPosVel\<close> (six
  fields) agrees in the same way with \<open>CommRecv\<close> with \<open>doRecv = false\<close>.
\<close>

theorem slot_tables_agree:
  "slot_table (CommSBN pad radd d xferFields fieldData)
     = slot_table (CommRecv pad myRank d msgType xferFields dx dy dz True False)
   \<and> slot_table (CommSyncPosVel pad d)
     = slot_table (CommRecv pad myRank d msgType 6 dx dy dz False False)"
proof (cases "numRanks d = 1")
  case True
  then show ?thesis
    by (simp add: slot_table_def CommRecv_def CommSBN_def CommSyncPosVel_def)
next
  case False
  then show ?thesis
    apply (cases "boundaryFlag d RowMin"; cases "boundaryFlag d RowMax"; cases "boundaryFlag d ColMin";
         cases "boundaryFlag d ColMax"; cases "boundaryFlag d PlaneMin"; cases "boundaryFlag d PlaneMax")
    apply (simp_all add: slot_table_def CommRecv_def CommSBN_def CommSyncPosVel_def consume_all_def
                         Let_def seq_def del: boundaryFlag.simps)
    done
qed

subsection \<open>Single-rank runs\<close>

text \<open>
  C7. When \<open>numRanks = 1\<close>, each of the five routines returns at once: the domain
  (buffers, fields, request arrays) is unchanged and no transport call is made.
\<close>

theorem single_rank_noop:
  assumes "numRanks d = 1"
  shows "dom (CommRecv pad myRank d msgType xferFields dx dy dz doRecv planeOnly) = d
       \<and> calls (CommRecv pad myRank d msgType xferFields dx dy dz doRecv planeOnly) = []
       \<and> dom (CommSend pad myRank d msgType xferFields fieldData dx dy dz doSend planeOnly) = d
       \<and> calls (CommSend pad myRank d msgType xferFields fieldData dx dy dz doSend planeOnly) = []
       \<and> dom (CommSBN pad radd d xferFields fieldData) = d
       \<and> calls (CommSBN pad radd d xferFields fieldData) = []
       \<and> dom (CommSyncPosVel pad d) = d
       \<and> calls (CommSyncPosVel pad d) = []
       \<and> dom (CommMonoQ d) = d
       \<and> calls (CommMonoQ d) = []"
  using assms
  by (simp add: CommRecv_def CommSend_def CommSBN_def CommSyncPosVel_def CommMonoQ_def)

theorem single_rank_noop_witness:
  "numRanks (blank\<lparr>numRanks := 1\<rparr>) = 1
   \<and> dom (CommRecv 16 0 (blank\<lparr>numRanks := 1\<rparr>) 1 6 3 3 3 True False) = blank\<lparr>numRanks := 1\<rparr>
   \<and> calls (CommSend 16 0 (blank\<lparr>numRanks := 1\<rparr>) 1 6 posvel_fields 3 3 3 True False) = []
   \<and> calls (CommSBN 16 (+) (blank\<lparr>numRanks := 1\<rparr>) 6 posvel_fields) = []
   \<and> dom (CommSyncPosVel 16 (blank\<lparr>numRanks := 1\<rparr>)) = blank\<lparr>numRanks := 1\<rparr>
   \<and> dom (CommMonoQ (blank\<lparr>numRanks := 1\<rparr>)) = blank\<lparr>numRanks := 1\<rparr>"
proof -
  have one: "numRanks (blank\<lparr>numRanks := 1\<rparr>) = 1" by simp
  show ?thesis
    using one single_rank_noop [OF one, where pad = 16 and myRank = 0 and msgType = 1
        and xferFields = 6 and dx = 3 and dy = 3 and dz = 3 and doRecv = True and planeOnly = False
        and fieldData = posvel_fields and doSend = True and radd = "(+)"]
    by simp
qed


subsection \<open>Complementary masks\<close>

text \<open>
  C2. Let \<open>B\<close> be the neighbour of \<open>A\<close> in direction \<open>v\<close>, both calling \<open>CommSend\<close> with
  \<open>doSend = false\<close> and \<open>CommRecv\<close> with \<open>doRecv = false\<close> (and the same \<open>planeOnly\<close>, which
  leaves only the faces). Then \<open>A\<close> sends along \<open>v\<close> exactly when \<open>B\<close> posts the receive
  from \<open>-v\<close>, \<open>B\<close> sends along \<open>-v\<close> exactly when \<open>A\<close> posts the receive from \<open>v\<close>, exactly
  one of the two sends is issued, and the send along \<open>v\<close> is suppressed by \<open>doSend = false\<close>
  at \<open>A\<close> exactly when the receive from \<open>-v\<close> is suppressed by \<open>doRecv = false\<close> at \<open>B\<close>.
\<close>

theorem exactly_once_per_direction_pair:
  assumes "in_grid A" and "in_grid B" and "numRanks A \<noteq> 1" and "numRanks B \<noteq> 1"
    and "is_direction v" and "neighbour_at A B v" and "planeOnly \<longrightarrow> is_face v"
  shows
   "(v \<in> set (sent_dirs (CommSend pad rA A msgType xferFields fieldData dx dy dz False planeOnly))
      \<longleftrightarrow> opposite v \<in> set (posted_dirs (CommRecv pad rB B msgType xferFields dx dy dz False planeOnly)))
    \<and> (opposite v \<in> set (sent_dirs (CommSend pad rB B msgType xferFields fieldData dx dy dz False planeOnly))
      \<longleftrightarrow> v \<in> set (posted_dirs (CommRecv pad rA A msgType xferFields dx dy dz False planeOnly)))
    \<and> count_list (sent_dirs (CommSend pad rA A msgType xferFields fieldData dx dy dz False planeOnly)) v
        + count_list (sent_dirs (CommSend pad rB B msgType xferFields fieldData dx dy dz False planeOnly)) (opposite v) = 1
    \<and> ((v \<in> set (sent_dirs (CommSend pad rA A msgType xferFields fieldData dx dy dz True planeOnly))
         \<and> v \<notin> set (sent_dirs (CommSend pad rA A msgType xferFields fieldData dx dy dz False planeOnly)))
      \<longleftrightarrow> (opposite v \<in> set (posted_dirs (CommRecv pad rB B msgType xferFields dx dy dz True planeOnly))
         \<and> opposite v \<notin> set (posted_dirs (CommRecv pad rB B msgType xferFields dx dy dz False planeOnly))))"
proof -
  note act = neighbour_active [OF assms(1,2,6,5)]
  note opp = opposite_direction [OF assms(5)] opposite_face [of v] opposite_upper [OF assms(5)]
  note sA = sent_mem [OF assms(1,3), of _ pad rA msgType xferFields fieldData dx dy dz _ planeOnly]
  note sB = sent_mem [OF assms(2,4), of _ pad rB msgType xferFields fieldData dx dy dz _ planeOnly]
  note pA = posted_mem [OF assms(1,3), of _ pad rA msgType xferFields dx dy dz _ planeOnly]
  note pB = posted_mem [OF assms(2,4), of _ pad rB msgType xferFields dx dy dz _ planeOnly]
  have c1: "count_list (sent_dirs (CommSend pad rA A msgType xferFields fieldData dx dy dz False planeOnly)) v
      = (if upper v then 0 else 1)"
    using count_list_distinct [OF sent_distinct [OF assms(3)]] sA assms(5,7) act by simp
  have c2: "count_list (sent_dirs (CommSend pad rB B msgType xferFields fieldData dx dy dz False planeOnly)) (opposite v)
      = (if upper v then 1 else 0)"
    using count_list_distinct [OF sent_distinct [OF assms(4)]] sB assms(5,7) act opp by simp
  show ?thesis
    unfolding c1 c2 sA sB pA pB using assms(5,7) act opp by simp
qed

theorem exactly_once_per_direction_pair_witness:
  "in_grid blank \<and> in_grid (blank\<lparr>colLoc := 2\<rparr>) \<and> numRanks blank \<noteq> 1
   \<and> numRanks (blank\<lparr>colLoc := 2\<rparr>) \<noteq> 1 \<and> is_direction (1, 0, 0)
   \<and> neighbour_at blank (blank\<lparr>colLoc := 2\<rparr>) (1, 0, 0) \<and> is_face (1, 0, 0)
   \<and> (1, 0, 0) \<in> set (posted_dirs (CommRecv 16 13 blank 1 6 3 3 3 False True))
   \<and> opposite (1, 0, 0) \<in> set (sent_dirs (CommSend 16 14 (blank\<lparr>colLoc := 2\<rparr>) 1 6 posvel_fields 3 3 3 False True))
   \<and> count_list (sent_dirs (CommSend 16 13 blank 1 6 posvel_fields 3 3 3 False True)) (1, 0, 0)
      + count_list (sent_dirs (CommSend 16 14 (blank\<lparr>colLoc := 2\<rparr>) 1 6 posvel_fields 3 3 3 False True))
          (opposite (1, 0, 0)) = 1"
proof -
  have h: "in_grid blank" "in_grid (blank\<lparr>colLoc := 2\<rparr>)" "numRanks blank \<noteq> 1"
    "numRanks (blank\<lparr>colLoc := 2\<rparr>) \<noteq> 1" "is_direction (1, 0, 0)"
    "neighbour_at blank (blank\<lparr>colLoc := 2\<rparr>) (1, 0, 0)" "is_face (1, 0, 0)"
    by (simp_all add: in_grid_def blank_def is_direction_def neighbour_at_def is_face_def)
  have f: "True \<longrightarrow> is_face (1, 0, 0)" using h(7) by simp
  note t = exactly_once_per_direction_pair [OF h(1-6) f, of 16 13 1 6 posvel_fields 3 3 3 14]
  have p: "(1, 0, 0) \<in> set (posted_dirs (CommRecv 16 13 blank 1 6 3 3 3 False True))"
    using posted_mem [OF h(1,3), of "(1, 0, 0)" 16 13 1 6 3 3 3 False True] h(5,7)
    by (simp add: active_def upper_def blank_def)
  from t p have s: "opposite (1, 0, 0) \<in> set (sent_dirs (CommSend 16 14 (blank\<lparr>colLoc := 2\<rparr>) 1 6 posvel_fields 3 3 3 False True))"
    by blast
  from t have c: "count_list (sent_dirs (CommSend 16 13 blank 1 6 posvel_fields 3 3 3 False True)) (1, 0, 0)
      + count_list (sent_dirs (CommSend 16 14 (blank\<lparr>colLoc := 2\<rparr>) 1 6 posvel_fields 3 3 3 False True))
          (opposite (1, 0, 0)) = 1"
    by blast
  from h p s c show ?thesis by blast
qed


subsection \<open>Masks and rank order\<close>

text \<open>
  C9, as amended. For \<open>tp \<ge> 2\<close>: with \<open>doRecv = false\<close> every receive \<open>CommRecv\<close> posts
  comes from a strictly higher rank, and every receive that only \<open>doRecv = true\<close> posts
  comes from a strictly lower rank; with \<open>doSend = false\<close> every send \<open>CommSend\<close> issues
  goes to a strictly lower rank, and every send that only \<open>doSend = true\<close> issues goes to a
  strictly higher rank. So with both flags false data flows from higher ranks to lower
  ranks only.
\<close>

theorem masks_follow_rank_order:
  assumes "2 \<le> tp d"
  shows
   "(\<forall>c \<in> set (calls (CommRecv pad myRank d msgType xferFields dx dy dz False planeOnly)).
        myRank < c_peer c)
    \<and> (\<forall>c \<in> set (calls (CommRecv pad myRank d msgType xferFields dx dy dz True planeOnly)).
        c_guard c \<notin> set (map c_guard (calls (CommRecv pad myRank d msgType xferFields dx dy dz False planeOnly)))
        \<longrightarrow> c_peer c < myRank)
    \<and> (\<forall>c \<in> set (calls (CommSend pad myRank d msgType xferFields fieldData dx dy dz False planeOnly)).
        c_kind c = Isend \<longrightarrow> c_peer c < myRank)
    \<and> (\<forall>c \<in> set (calls (CommSend pad myRank d msgType xferFields fieldData dx dy dz True planeOnly)).
        c_kind c = Isend \<longrightarrow>
        c_guard c \<notin> set (map c_guard (calls (CommSend pad myRank d msgType xferFields fieldData dx dy dz False planeOnly)))
        \<longrightarrow> myRank < c_peer c)"
proof (cases "numRanks d = 1")
  case True
  then show ?thesis by (simp add: CommRecv_def CommSend_def)
next
  case False
  note sign = rank_off_sign [OF _ assms]
  have r1: "myRank < c_peer c"
    if "c \<in> set (calls (CommRecv pad myRank d msgType xferFields dx dy dz False planeOnly))" for c
    using recv_call_guard [OF False that] recv_call_peer [OF that] sign(1) [of "c_guard c"] by simp
  have r2: "c_peer c < myRank"
    if "c \<in> set (calls (CommRecv pad myRank d msgType xferFields dx dy dz True planeOnly))"
      and "c_guard c \<notin> set (map c_guard (calls (CommRecv pad myRank d msgType xferFields dx dy dz False planeOnly)))"
    for c
  proof -
    note g = recv_call_guard [OF False that(1)]
    have "c_guard c \<notin> set upper_guards"
      using g that(2) recv_guard_posted [OF False, of "c_guard c" False planeOnly pad myRank msgType xferFields dx dy dz]
      by blast
    then show ?thesis
      using g recv_call_peer [OF that(1)] sign(2) [of "c_guard c"] by simp
  qed
  have s1: "c_peer c < myRank"
    if "c \<in> set (calls (CommSend pad myRank d msgType xferFields fieldData dx dy dz False planeOnly))"
      and "c_kind c = Isend" for c
    using send_call_guard [OF False that] send_call_peer [OF that] sign(2) [of "c_guard c"] by simp
  have s2: "myRank < c_peer c"
    if "c \<in> set (calls (CommSend pad myRank d msgType xferFields fieldData dx dy dz True planeOnly))"
      and "c_kind c = Isend"
      and "c_guard c \<notin> set (map c_guard (calls (CommSend pad myRank d msgType xferFields fieldData dx dy dz False planeOnly)))"
    for c
  proof -
    note g = send_call_guard [OF False that(1,2)]
    have "c_guard c \<in> set upper_guards"
      using g that(3) send_guard_sent [OF False, of "c_guard c" False planeOnly pad myRank msgType xferFields fieldData dx dy dz]
      by blast
    then show ?thesis
      using g send_call_peer [OF that(1,2)] sign(1) [of "c_guard c"] by simp
  qed
  from r1 r2 s1 s2 show ?thesis by blast
qed

lemma blank_masked_send:
  "map c_kind (calls (CommSend 16 13 blank 1 6 posvel_fields 3 3 3 False False)) = replicate 13 Isend @ [Waitall]"
  "map c_peer (calls (CommSend 16 13 blank 1 6 posvel_fields 3 3 3 False False)) =
     [4, 10, 12, 9, 1, 3, 11, 7, 5, 0, 2, 6, 8, 0]"
  by (simp_all add: CommSend_def Let_def seq_def eval_nat_numeral del: boundaryFlag.simps)

lemma blank_masked_send_hd:
  "hd (calls (CommSend 16 13 blank 1 6 posvel_fields 3 3 3 False False))
     \<in> set (calls (CommSend 16 13 blank 1 6 posvel_fields 3 3 3 False False))"
  "c_kind (hd (calls (CommSend 16 13 blank 1 6 posvel_fields 3 3 3 False False))) = Isend"
  "c_peer (hd (calls (CommSend 16 13 blank 1 6 posvel_fields 3 3 3 False False))) = 4"
proof -
  let ?Y = "calls (CommSend 16 13 blank 1 6 posvel_fields 3 3 3 False False)"
  have Y: "?Y \<noteq> []" using blank_masked_send(1) by auto
  then show "hd ?Y \<in> set ?Y" by simp
  show "c_kind (hd ?Y) = Isend" "c_peer (hd ?Y) = 4"
    using hd_map [OF Y, of c_kind] hd_map [OF Y, of c_peer]
    by (simp_all only: blank_masked_send) (simp_all add: eval_nat_numeral)
qed

theorem masks_follow_rank_order_witness:
  "2 \<le> tp blank
   \<and> hd (calls (CommSend 16 13 blank 1 6 posvel_fields 3 3 3 False False))
       \<in> set (calls (CommSend 16 13 blank 1 6 posvel_fields 3 3 3 False False))
   \<and> c_kind (hd (calls (CommSend 16 13 blank 1 6 posvel_fields 3 3 3 False False))) = Isend
   \<and> c_peer (hd (calls (CommSend 16 13 blank 1 6 posvel_fields 3 3 3 False False))) < 13"
proof -
  have t: "2 \<le> tp blank" by simp
  from masks_follow_rank_order [OF t, where pad = 16 and myRank = 13 and msgType = 1
      and xferFields = 6 and fieldData = posvel_fields and dx = 3 and dy = 3 and dz = 3
      and planeOnly = False] blank_masked_send_hd(1,2)
  have "c_peer (hd (calls (CommSend 16 13 blank 1 6 posvel_fields 3 3 3 False False))) < 13"
    by blast
  with t blank_masked_send_hd(1,2) show ?thesis by blast
qed

text \<open>
  C9 as stated ends ``data flows only from lower ranks to higher ranks''. At rank 13 of
  the 3 x 3 x 3 grid the first send with \<open>doSend = false\<close> goes to rank 4.
\<close>

theorem lower_to_higher_flow_counterexample:
  "hd (calls (CommSend 16 13 blank 1 6 posvel_fields 3 3 3 False False))
       \<in> set (calls (CommSend 16 13 blank 1 6 posvel_fields 3 3 3 False False))
   \<and> c_kind (hd (calls (CommSend 16 13 blank 1 6 posvel_fields 3 3 3 False False))) = Isend
   \<and> c_peer (hd (calls (CommSend 16 13 blank 1 6 posvel_fields 3 3 3 False False))) = 4
   \<and> \<not> (13 < c_peer (hd (calls (CommSend 16 13 blank 1 6 posvel_fields 3 3 3 False False))))"
  using blank_masked_send_hd by simp


subsection \<open>Packing and unpacking\<close>

lemma region_round_trip:
  assumes deliv: "\<forall>t. 0 \<le> t \<and> t < xf * count (region_of dx dy dz g) \<longrightarrow>
        recv (src + t) = send_image mA dst (rel_writes xf fd (region_of dx dy dz g)) bufA (dst + t)"
    and c: "0 \<le> fi" "fi < xf" "(b, k) \<in> set (cells (region_of dx dy dz g))"
  shows "ow_image recv src (rel_writes xf fd (region_of dx dy dz g)) mB (fd fi) k = mA (fd fi) k"
proof -
  let ?r = "region_of dx dy dz g"
  let ?ws = "rel_writes xf fd ?r"
  from c have w: "(fd fi, k, fi * count ?r + b) \<in> set ?ws"
    unfolding rel_writes_mem by blast
  show ?thesis
  proof (rule writes_round_trip [where dst = dst and bufA = bufA, OF _ _ w])
    fix f k f' k' off
    assume "(f, k, off) \<in> set ?ws" "(f', k', off) \<in> set ?ws"
    then show "f = f' \<and> k = k'" by (rule rel_writes_same_offset [OF fits_region_of])
  next
    fix f k off
    assume "(f, k, off) \<in> set ?ws"
    then have "0 \<le> off \<and> off < xf * count ?r"
      using rel_writes_offset [OF fits_region_of] by blast
    with deliv show "recv (src + off) = send_image mA dst ?ws bufA (dst + off)" by simp
  qed
qed

lemma corner_round_trip:
  assumes deliv: "\<forall>t. 0 \<le> t \<and> t < xf \<longrightarrow>
        recv (src + t) = send_image mA dst (corner_writes xf fd idx) bufA (dst + t)"
    and c: "0 \<le> fi" "fi < xf"
  shows "ow_image recv src (corner_writes xf fd idx) mB (fd fi) idx = mA (fd fi) idx"
proof -
  let ?ws = "corner_writes xf fd idx"
  from c have w: "(fd fi, idx, fi) \<in> set ?ws"
    unfolding corner_writes_mem by simp
  show ?thesis
  proof (rule writes_round_trip [where dst = dst and bufA = bufA, OF _ _ w])
    fix f k f' k' off
    assume "(f, k, off) \<in> set ?ws" "(f', k', off) \<in> set ?ws"
    then show "f = f' \<and> k = k'" unfolding corner_writes_mem by simp
  next
    fix f k off
    assume "(f, k, off) \<in> set ?ws"
    then have "0 \<le> off \<and> off < xf" unfolding corner_writes_mem by simp
    with deliv show "recv (src + off) = send_image mA dst ?ws bufA (dst + off)" by simp
  qed
qed

lemma pack_send_last:
  "0 \<le> xf \<Longrightarrow> last (calls (pack_send mt xf fd r g to base slot s)) =
     \<lparr>c_kind = Isend, c_guard = g, c_offset = base, c_count = xf * count r,
      c_peer = to, c_tag = mt, c_req = slot\<rparr>"
  by (simp add: pack_send_def post_send_def field_loop_fold log_call_def)

lemma pack_send_kind:
  "c_kind (last (calls (pack_send mt xf fd r g to base slot s))) = Isend"
  "c_count (last (calls (pack_send mt xf fd r g to base slot s))) = xf * count r"
  by (simp_all add: pack_send_def post_send_def field_loop_fold log_call_def)

lemma unpack_recv_last:
  "last (calls (unpack_recv xf fd act r g a slot s)) =
     \<lparr>c_kind = Wait, c_guard = g, c_offset = a, c_count = 0, c_peer = 0, c_tag = 0, c_req = slot\<rparr>"
  by (simp add: unpack_recv_def wait_recv_def log_call_def)

lemma unpack_recv_member:
  "member (dom (unpack_recv xf fd overwrite r g a slot s)) =
     ow_image (commDataRecv (dom s)) a (rel_writes xf fd r) (member (dom s))"
  by (simp add: unpack_recv_def wait_recv_def unpack_overwrite_eq)

lemma send_recv_block:
  assumes xf: "0 \<le> xf"
    and SA: "SA = pack_send mt xf fd (region_of dx dy dz g) g to baseA slotA sA"
    and RB: "RB = unpack_recv xf fd overwrite (region_of dx dy dz g) g baseB slotB sB"
    and deliv: "\<forall>t. 0 \<le> t \<and> t < c_count (last (calls SA)) \<longrightarrow>
       commDataRecv (dom sB) (c_offset (last (calls RB)) + t)
         = commDataSend (dom SA) (c_offset (last (calls SA)) + t)"
    and c: "0 \<le> fi" "fi < xf" "(b, k) \<in> set (cells (region_of dx dy dz g))"
  shows "member (dom RB) (fd fi) k = member (dom sA) (fd fi) k"
proof -
  from deliv have "\<forall>t. 0 \<le> t \<and> t < xf * count (region_of dx dy dz g) \<longrightarrow>
        commDataRecv (dom sB) (baseB + t)
          = send_image (member (dom sA)) baseA (rel_writes xf fd (region_of dx dy dz g))
              (commDataSend (dom sA)) (baseA + t)"
    unfolding SA RB
    by (simp add: pack_send_last [OF xf] unpack_recv_last pack_send_buf)
  from region_round_trip [OF this c] show ?thesis
    unfolding RB by (simp add: unpack_recv_member)
qed


lemma send_plane_run:
  "holds fl g \<Longrightarrow>
     calls (send_plane fl mt xf fd dx dy dz mpc g True to s)
       = calls (pack_send mt xf fd (region_of dx dy dz g) g to (pmsg s * mpc) (pmsg s) s)
     \<and> dom (send_plane fl mt xf fd dx dy dz mpc g True to s)
       = dom (pack_send mt xf fd (region_of dx dy dz g) g to (pmsg s * mpc) (pmsg s) s)"
  by (simp add: send_plane_def)

lemma send_edge_run:
  "holds fl g \<Longrightarrow>
     calls (send_edge fl mt xf fd dx dy dz mpc mec g True to s)
       = calls (pack_send mt xf fd (region_of dx dy dz g) g to
                  (pmsg s * mpc + emsg s * mec) (pmsg s + emsg s) s)
     \<and> dom (send_edge fl mt xf fd dx dy dz mpc mec g True to s)
       = dom (pack_send mt xf fd (region_of dx dy dz g) g to
                  (pmsg s * mpc + emsg s * mec) (pmsg s + emsg s) s)"
  by (simp add: send_edge_def)

lemma consume_plane_run:
  "holds fl g \<Longrightarrow>
     calls (consume_plane fl xf fd act dx dy dz mpc g True s)
       = calls (unpack_recv xf fd act (region_of dx dy dz g) g (pmsg s * mpc) (pmsg s) s)
     \<and> dom (consume_plane fl xf fd act dx dy dz mpc g True s)
       = dom (unpack_recv xf fd act (region_of dx dy dz g) g (pmsg s * mpc) (pmsg s) s)"
  by (simp add: consume_plane_def)

lemma consume_edge_run:
  "holds fl g \<Longrightarrow>
     calls (consume_edge fl xf fd act dx dy dz mpc mec g True s)
       = calls (unpack_recv xf fd act (region_of dx dy dz g) g
                  (pmsg s * mpc + emsg s * mec) (pmsg s + emsg s) s)
     \<and> dom (consume_edge fl xf fd act dx dy dz mpc mec g True s)
       = dom (unpack_recv xf fd act (region_of dx dy dz g) g
                  (pmsg s * mpc + emsg s * mec) (pmsg s + emsg s) s)"
  by (simp add: consume_edge_def)

lemma send_corner_run:
  "holds fl g \<Longrightarrow>
     last (calls (send_corner fl mt xf fd dx dy dz mpc mec pad g True to s))
       = \<lparr>c_kind = Isend, c_guard = g, c_offset = pmsg s * mpc + emsg s * mec + cmsg s * pad,
          c_count = xf, c_peer = to, c_tag = mt, c_req = pmsg s + emsg s + cmsg s\<rparr>
     \<and> commDataSend (dom (send_corner fl mt xf fd dx dy dz mpc mec pad g True to s))
       = send_image (member (dom s)) (pmsg s * mpc + emsg s * mec + cmsg s * pad)
           (corner_writes xf fd (corner_of dx dy dz g)) (commDataSend (dom s))"
  by (simp add: send_corner_def Let_def post_send_def log_call_def corner_gather_eq)

lemma consume_corner_run:
  "holds fl g \<Longrightarrow>
     last (calls (consume_corner fl xf fd overwrite dx dy dz mpc mec pad g True s))
       = \<lparr>c_kind = Wait, c_guard = g, c_offset = pmsg s * mpc + emsg s * mec + cmsg s * pad,
          c_count = 0, c_peer = 0, c_tag = 0, c_req = pmsg s + emsg s + cmsg s\<rparr>
     \<and> member (dom (consume_corner fl xf fd overwrite dx dy dz mpc mec pad g True s))
       = ow_image (commDataRecv (dom s)) (pmsg s * mpc + emsg s * mec + cmsg s * pad)
           (corner_writes xf fd (corner_of dx dy dz g)) (member (dom s))"
  by (simp add: consume_corner_def Let_def wait_recv_def log_call_def corner_overwrite_eq)

text \<open>
  Claim C3. The send blocks of \<open>CommSend\<close> (\<open>send_plane\<close>, \<open>send_edge\<close>, \<open>send_corner\<close>) and the
  consuming blocks of \<open>CommSyncPosVel\<close> (\<open>consume_plane\<close>, \<open>consume_edge\<close>, \<open>consume_corner\<close>
  with \<open>overwrite\<close>), run for the same guard, the same sizes and the same field list, from any two
  states: the send block logs an \<open>Isend\<close> of \<open>xferFields * count\<close> values (\<open>xferFields\<close> for a
  corner), and when the receive buffer holds, where the consuming block waits for its message,
  the values the send buffer holds where the \<open>Isend\<close> starts, then after the consuming block
  every field of the list has, at every index of the region, the value the sender's field has
  there.
\<close>

theorem pack_unpack_round_trip:
  assumes "holds flA p" "holds flB p" "holds flA e" "holds flB e" "holds flA c" "holds flB c"
  shows
   "(let SA = send_plane flA msgType xferFields fieldData dx dy dz mpcA p True toRank sA;
         RB = consume_plane flB xferFields fieldData overwrite dx dy dz mpcB p True sB;
         m = last (calls SA); w = last (calls RB)
     in c_kind m = Isend \<and> c_kind w = Wait
        \<and> c_count m = xferFields * count (region_of dx dy dz p)
        \<and> ((\<forall>t. 0 \<le> t \<and> t < c_count m \<longrightarrow>
               commDataRecv (dom sB) (c_offset w + t) = commDataSend (dom SA) (c_offset m + t))
           \<longrightarrow> (\<forall>fi b k. 0 \<le> fi \<and> fi < xferFields \<and> (b, k) \<in> set (cells (region_of dx dy dz p))
                 \<longrightarrow> member (dom RB) (fieldData fi) k = member (dom sA) (fieldData fi) k)))
    \<and> (let SA = send_edge flA msgType xferFields fieldData dx dy dz mpcA mecA e True toRank sA;
         RB = consume_edge flB xferFields fieldData overwrite dx dy dz mpcB mecB e True sB;
         m = last (calls SA); w = last (calls RB)
     in c_kind m = Isend \<and> c_kind w = Wait
        \<and> c_count m = xferFields * count (region_of dx dy dz e)
        \<and> ((\<forall>t. 0 \<le> t \<and> t < c_count m \<longrightarrow>
               commDataRecv (dom sB) (c_offset w + t) = commDataSend (dom SA) (c_offset m + t))
           \<longrightarrow> (\<forall>fi b k. 0 \<le> fi \<and> fi < xferFields \<and> (b, k) \<in> set (cells (region_of dx dy dz e))
                 \<longrightarrow> member (dom RB) (fieldData fi) k = member (dom sA) (fieldData fi) k)))
    \<and> (let SA = send_corner flA msgType xferFields fieldData dx dy dz mpcA mecA padA c True toRank sA;
         RB = consume_corner flB xferFields fieldData overwrite dx dy dz mpcB mecB padB c True sB;
         m = last (calls SA); w = last (calls RB)
     in c_kind m = Isend \<and> c_kind w = Wait \<and> c_count m = xferFields
        \<and> ((\<forall>t. 0 \<le> t \<and> t < c_count m \<longrightarrow>
               commDataRecv (dom sB) (c_offset w + t) = commDataSend (dom SA) (c_offset m + t))
           \<longrightarrow> (\<forall>fi. 0 \<le> fi \<and> fi < xferFields
                 \<longrightarrow> member (dom RB) (fieldData fi) (corner_of dx dy dz c)
                       = member (dom sA) (fieldData fi) (corner_of dx dy dz c))))"
proof (intro conjI)
  let ?SP = "pack_send msgType xferFields fieldData (region_of dx dy dz p) p toRank
               (pmsg sA * mpcA) (pmsg sA) sA"
  let ?RP = "unpack_recv xferFields fieldData overwrite (region_of dx dy dz p) p
               (pmsg sB * mpcB) (pmsg sB) sB"
  show "let SA = send_plane flA msgType xferFields fieldData dx dy dz mpcA p True toRank sA;
         RB = consume_plane flB xferFields fieldData overwrite dx dy dz mpcB p True sB;
         m = last (calls SA); w = last (calls RB)
     in c_kind m = Isend \<and> c_kind w = Wait
        \<and> c_count m = xferFields * count (region_of dx dy dz p)
        \<and> ((\<forall>t. 0 \<le> t \<and> t < c_count m \<longrightarrow>
               commDataRecv (dom sB) (c_offset w + t) = commDataSend (dom SA) (c_offset m + t))
           \<longrightarrow> (\<forall>fi b k. 0 \<le> fi \<and> fi < xferFields \<and> (b, k) \<in> set (cells (region_of dx dy dz p))
                 \<longrightarrow> member (dom RB) (fieldData fi) k = member (dom sA) (fieldData fi) k))"
    unfolding Let_def send_plane_run [OF assms(1), THEN conjunct1]
      send_plane_run [OF assms(1), THEN conjunct2]
      consume_plane_run [OF assms(2), THEN conjunct1]
      consume_plane_run [OF assms(2), THEN conjunct2]
  proof (intro conjI impI allI)
    fix fi b k
    assume deliv: "\<forall>t. 0 \<le> t \<and> t < c_count (last (calls ?SP)) \<longrightarrow>
        commDataRecv (dom sB) (c_offset (last (calls ?RP)) + t)
          = commDataSend (dom ?SP) (c_offset (last (calls ?SP)) + t)"
      and c: "0 \<le> fi \<and> fi < xferFields \<and> (b, k) \<in> set (cells (region_of dx dy dz p))"
    then have xf: "0 \<le> xferFields" by simp
    from c have c1: "0 \<le> fi" "fi < xferFields" "(b, k) \<in> set (cells (region_of dx dy dz p))"
      by simp_all
    show "member (dom ?RP) (fieldData fi) k = member (dom sA) (fieldData fi) k"
      by (rule send_recv_block [OF xf refl refl deliv c1])
  qed (simp_all add: pack_send_kind unpack_recv_last)
next
  let ?SP = "pack_send msgType xferFields fieldData (region_of dx dy dz e) e toRank
               (pmsg sA * mpcA + emsg sA * mecA) (pmsg sA + emsg sA) sA"
  let ?RP = "unpack_recv xferFields fieldData overwrite (region_of dx dy dz e) e
               (pmsg sB * mpcB + emsg sB * mecB) (pmsg sB + emsg sB) sB"
  show "let SA = send_edge flA msgType xferFields fieldData dx dy dz mpcA mecA e True toRank sA;
         RB = consume_edge flB xferFields fieldData overwrite dx dy dz mpcB mecB e True sB;
         m = last (calls SA); w = last (calls RB)
     in c_kind m = Isend \<and> c_kind w = Wait
        \<and> c_count m = xferFields * count (region_of dx dy dz e)
        \<and> ((\<forall>t. 0 \<le> t \<and> t < c_count m \<longrightarrow>
               commDataRecv (dom sB) (c_offset w + t) = commDataSend (dom SA) (c_offset m + t))
           \<longrightarrow> (\<forall>fi b k. 0 \<le> fi \<and> fi < xferFields \<and> (b, k) \<in> set (cells (region_of dx dy dz e))
                 \<longrightarrow> member (dom RB) (fieldData fi) k = member (dom sA) (fieldData fi) k))"
    unfolding Let_def send_edge_run [OF assms(3), THEN conjunct1]
      send_edge_run [OF assms(3), THEN conjunct2]
      consume_edge_run [OF assms(4), THEN conjunct1]
      consume_edge_run [OF assms(4), THEN conjunct2]
  proof (intro conjI impI allI)
    fix fi b k
    assume deliv: "\<forall>t. 0 \<le> t \<and> t < c_count (last (calls ?SP)) \<longrightarrow>
        commDataRecv (dom sB) (c_offset (last (calls ?RP)) + t)
          = commDataSend (dom ?SP) (c_offset (last (calls ?SP)) + t)"
      and c: "0 \<le> fi \<and> fi < xferFields \<and> (b, k) \<in> set (cells (region_of dx dy dz e))"
    then have xf: "0 \<le> xferFields" by simp
    from c have c1: "0 \<le> fi" "fi < xferFields" "(b, k) \<in> set (cells (region_of dx dy dz e))"
      by simp_all
    show "member (dom ?RP) (fieldData fi) k = member (dom sA) (fieldData fi) k"
      by (rule send_recv_block [OF xf refl refl deliv c1])
  qed (simp_all add: pack_send_kind unpack_recv_last)
next
  show "let SA = send_corner flA msgType xferFields fieldData dx dy dz mpcA mecA padA c True toRank sA;
         RB = consume_corner flB xferFields fieldData overwrite dx dy dz mpcB mecB padB c True sB;
         m = last (calls SA); w = last (calls RB)
     in c_kind m = Isend \<and> c_kind w = Wait \<and> c_count m = xferFields
        \<and> ((\<forall>t. 0 \<le> t \<and> t < c_count m \<longrightarrow>
               commDataRecv (dom sB) (c_offset w + t) = commDataSend (dom SA) (c_offset m + t))
           \<longrightarrow> (\<forall>fi. 0 \<le> fi \<and> fi < xferFields
                 \<longrightarrow> member (dom RB) (fieldData fi) (corner_of dx dy dz c)
                       = member (dom sA) (fieldData fi) (corner_of dx dy dz c)))"
    unfolding Let_def send_corner_run [OF assms(5), THEN conjunct1]
      send_corner_run [OF assms(5), THEN conjunct2]
      consume_corner_run [OF assms(6), THEN conjunct1]
      consume_corner_run [OF assms(6), THEN conjunct2]
  proof (intro conjI impI allI)
    fix fi
    assume deliv: "\<forall>t. 0 \<le> t \<and> t < c_count \<lparr>c_kind = Isend, c_guard = c,
            c_offset = pmsg sA * mpcA + emsg sA * mecA + cmsg sA * padA,
            c_count = xferFields, c_peer = toRank, c_tag = msgType,
            c_req = pmsg sA + emsg sA + cmsg sA\<rparr> \<longrightarrow>
        commDataRecv (dom sB) (c_offset \<lparr>c_kind = Wait, c_guard = c,
            c_offset = pmsg sB * mpcB + emsg sB * mecB + cmsg sB * padB,
            c_count = 0, c_peer = 0, c_tag = 0, c_req = pmsg sB + emsg sB + cmsg sB\<rparr> + t)
          = send_image (member (dom sA)) (pmsg sA * mpcA + emsg sA * mecA + cmsg sA * padA)
              (corner_writes xferFields fieldData (corner_of dx dy dz c)) (commDataSend (dom sA))
              (c_offset \<lparr>c_kind = Isend, c_guard = c,
                 c_offset = pmsg sA * mpcA + emsg sA * mecA + cmsg sA * padA,
                 c_count = xferFields, c_peer = toRank, c_tag = msgType,
                 c_req = pmsg sA + emsg sA + cmsg sA\<rparr> + t)"
      and c: "0 \<le> fi \<and> fi < xferFields"
    from deliv have "\<forall>t. 0 \<le> t \<and> t < xferFields \<longrightarrow>
        commDataRecv (dom sB) (pmsg sB * mpcB + emsg sB * mecB + cmsg sB * padB + t)
          = send_image (member (dom sA)) (pmsg sA * mpcA + emsg sA * mecA + cmsg sA * padA)
              (corner_writes xferFields fieldData (corner_of dx dy dz c)) (commDataSend (dom sA))
              (pmsg sA * mpcA + emsg sA * mecA + cmsg sA * padA + t)"
      by simp
    from corner_round_trip [OF this] c
    show "ow_image (commDataRecv (dom sB)) (pmsg sB * mpcB + emsg sB * mecB + cmsg sB * padB)
            (corner_writes xferFields fieldData (corner_of dx dy dz c)) (member (dom sB))
            (fieldData fi) (corner_of dx dy dz c)
          = member (dom sA) (fieldData fi) (corner_of dx dy dz c)"
      by simp
  qed simp_all
qed


theorem pack_unpack_round_trip_witness:
  "holds (boundaryFlag ramp) [RowMax] \<and> holds (boundaryFlag blank) [RowMax]
   \<and> holds (boundaryFlag ramp) [RowMax, ColMin] \<and> holds (boundaryFlag blank) [RowMax, ColMin]
   \<and> holds (boundaryFlag ramp) [RowMax, ColMax, PlaneMax]
   \<and> holds (boundaryFlag blank) [RowMax, ColMax, PlaneMax]
   \<and> (0, 6) \<in> set (cells (region_of 3 3 3 [RowMax]))
   \<and> (1, 15) \<in> set (cells (region_of 3 3 3 [RowMax, ColMin]))
   \<and> corner_of 3 3 3 [RowMax, ColMax, PlaneMax] = 26
   \<and> member ramp M_x 6 = 6 \<and> member ramp M_x 15 = 15 \<and> member ramp M_x 26 = 26
   \<and> member (dom (consume_plane (boundaryFlag blank) 6 posvel_fields overwrite 3 3 3 54 [RowMax] True
        (init_state (blank\<lparr>commDataRecv := commDataSend (dom
           (send_plane (boundaryFlag ramp) 1 6 posvel_fields 3 3 3 54 [RowMax] True 16
              (init_state ramp)))\<rparr>)))) M_x 6 = 6
   \<and> member (dom (consume_edge (boundaryFlag blank) 6 posvel_fields overwrite 3 3 3 54 18
        [RowMax, ColMin] True
        (init_state (blank\<lparr>commDataRecv := commDataSend (dom
           (send_edge (boundaryFlag ramp) 1 6 posvel_fields 3 3 3 54 18 [RowMax, ColMin] True 15
              (init_state ramp)))\<rparr>)))) M_x 15 = 15
   \<and> member (dom (consume_corner (boundaryFlag blank) 6 posvel_fields overwrite 3 3 3 54 18 16
        [RowMax, ColMax, PlaneMax] True
        (init_state (blank\<lparr>commDataRecv := commDataSend (dom
           (send_corner (boundaryFlag ramp) 1 6 posvel_fields 3 3 3 54 18 16
              [RowMax, ColMax, PlaneMax] True 26 (init_state ramp)))\<rparr>)))) M_x 26 = 26"
proof -
  let ?p = "[RowMax]" and ?e = "[RowMax, ColMin]" and ?c = "[RowMax, ColMax, PlaneMax]"
  let ?SP = "send_plane (boundaryFlag ramp) 1 6 posvel_fields 3 3 3 54 ?p True 16 (init_state ramp)"
  let ?SE = "send_edge (boundaryFlag ramp) 1 6 posvel_fields 3 3 3 54 18 ?e True 15 (init_state ramp)"
  let ?SC = "send_corner (boundaryFlag ramp) 1 6 posvel_fields 3 3 3 54 18 16 ?c True 26 (init_state ramp)"
  let ?BP = "init_state (blank\<lparr>commDataRecv := commDataSend (dom ?SP)\<rparr>)"
  let ?BE = "init_state (blank\<lparr>commDataRecv := commDataSend (dom ?SE)\<rparr>)"
  let ?BC = "init_state (blank\<lparr>commDataRecv := commDataSend (dom ?SC)\<rparr>)"
  let ?RP = "consume_plane (boundaryFlag blank) 6 posvel_fields overwrite 3 3 3 54 ?p True ?BP"
  let ?RE = "consume_edge (boundaryFlag blank) 6 posvel_fields overwrite 3 3 3 54 18 ?e True ?BE"
  let ?RC = "consume_corner (boundaryFlag blank) 6 posvel_fields overwrite 3 3 3 54 18 16 ?c True ?BC"
  have h: "holds (boundaryFlag ramp) ?p" "holds (boundaryFlag blank) ?p"
    "holds (boundaryFlag ramp) ?e" "holds (boundaryFlag blank) ?e"
    "holds (boundaryFlag ramp) ?c" "holds (boundaryFlag blank) ?c"
    by (simp_all add: ramp_def blank_def)
  have cell: "(0, 6) \<in> set (cells (region_of 3 3 3 ?p))" "(1, 15) \<in> set (cells (region_of 3 3 3 ?e))"
    "corner_of 3 3 3 ?c = 26"
    by (simp_all add: region_of_def corner_of_def eval_nat_numeral)
  have f0: "posvel_fields 0 = M_x" by (simp add: posvel_fields_def)
  have v: "member ramp M_x 6 = 6" "member ramp M_x 15 = 15" "member ramp M_x 26 = 26"
    by (simp_all add: ramp_def)
  have op: "c_offset (last (calls ?SP)) = 0" "c_offset (last (calls ?RP)) = 0"
    unfolding send_plane_run [OF h(1), THEN conjunct1] consume_plane_run [OF h(2), THEN conjunct1]
    by (simp_all add: pack_send_last unpack_recv_last)
  have oe: "c_offset (last (calls ?SE)) = 0" "c_offset (last (calls ?RE)) = 0"
    unfolding send_edge_run [OF h(3), THEN conjunct1] consume_edge_run [OF h(4), THEN conjunct1]
    by (simp_all add: pack_send_last unpack_recv_last)
  have oc: "c_offset (last (calls ?SC)) = 0" "c_offset (last (calls ?RC)) = 0"
    unfolding send_corner_run [OF h(5), THEN conjunct1] consume_corner_run [OF h(6), THEN conjunct1]
    by simp_all
  note t = pack_unpack_round_trip [OF h, where msgType = 1 and xferFields = 6
      and fieldData = posvel_fields and dx = 3 and dy = 3 and dz = 3 and mpcA = 54 and mpcB = 54
      and mecA = 18 and mecB = 18 and padA = 16 and padB = 16 and toRank = 16
      and sA = "init_state ramp" and sB = ?BP, unfolded Let_def, THEN conjunct1]
  have "\<forall>t. 0 \<le> t \<and> t < c_count (last (calls ?SP)) \<longrightarrow>
      commDataRecv (dom ?BP) (c_offset (last (calls ?RP)) + t)
        = commDataSend (dom ?SP) (c_offset (last (calls ?SP)) + t)"
    unfolding op by simp
  with t have "\<forall>fi b k. 0 \<le> fi \<and> fi < 6 \<and> (b, k) \<in> set (cells (region_of 3 3 3 ?p))
      \<longrightarrow> member (dom ?RP) (posvel_fields fi) k = member (dom (init_state ramp)) (posvel_fields fi) k"
    by blast
  with cell(1) have 1: "member (dom ?RP) (posvel_fields 0) 6
      = member (dom (init_state ramp)) (posvel_fields 0) 6"
    by (metis order_refl zero_less_numeral)
  note t = pack_unpack_round_trip [OF h, where msgType = 1 and xferFields = 6
      and fieldData = posvel_fields and dx = 3 and dy = 3 and dz = 3 and mpcA = 54 and mpcB = 54
      and mecA = 18 and mecB = 18 and padA = 16 and padB = 16 and toRank = 15
      and sA = "init_state ramp" and sB = ?BE, unfolded Let_def, THEN conjunct2, THEN conjunct1]
  have "\<forall>t. 0 \<le> t \<and> t < c_count (last (calls ?SE)) \<longrightarrow>
      commDataRecv (dom ?BE) (c_offset (last (calls ?RE)) + t)
        = commDataSend (dom ?SE) (c_offset (last (calls ?SE)) + t)"
    unfolding oe by simp
  with t have "\<forall>fi b k. 0 \<le> fi \<and> fi < 6 \<and> (b, k) \<in> set (cells (region_of 3 3 3 ?e))
      \<longrightarrow> member (dom ?RE) (posvel_fields fi) k = member (dom (init_state ramp)) (posvel_fields fi) k"
    by blast
  with cell(2) have 2: "member (dom ?RE) (posvel_fields 0) 15
      = member (dom (init_state ramp)) (posvel_fields 0) 15"
    by (metis order_refl zero_less_numeral)
  note t = pack_unpack_round_trip [OF h, where msgType = 1 and xferFields = 6
      and fieldData = posvel_fields and dx = 3 and dy = 3 and dz = 3 and mpcA = 54 and mpcB = 54
      and mecA = 18 and mecB = 18 and padA = 16 and padB = 16 and toRank = 26
      and sA = "init_state ramp" and sB = ?BC, unfolded Let_def, THEN conjunct2, THEN conjunct2]
  have "\<forall>t. 0 \<le> t \<and> t < c_count (last (calls ?SC)) \<longrightarrow>
      commDataRecv (dom ?BC) (c_offset (last (calls ?RC)) + t)
        = commDataSend (dom ?SC) (c_offset (last (calls ?SC)) + t)"
    unfolding oc by simp
  with t have "\<forall>fi. 0 \<le> fi \<and> fi < 6
      \<longrightarrow> member (dom ?RC) (posvel_fields fi) (corner_of 3 3 3 ?c)
            = member (dom (init_state ramp)) (posvel_fields fi) (corner_of 3 3 3 ?c)"
    by blast
  then have 3: "member (dom ?RC) (posvel_fields 0) 26
      = member (dom (init_state ramp)) (posvel_fields 0) 26"
    unfolding cell(3) by (metis order_refl zero_less_numeral)
  from 1 2 3 have r: "member (dom ?RP) M_x 6 = 6" "member (dom ?RE) M_x 15 = 15"
    "member (dom ?RC) M_x 26 = 26"
    unfolding f0 by (simp_all add: v)
  show ?thesis
    by (intro conjI h cell v r)
qed

subsection \<open>Accumulation\<close>

lemma ulp_of_step:
  "0 < n \<Longrightarrow> ulp_of p n x u =
     (if 2 ^ p * u \<le> \<bar>x\<bar> then ulp_of p (n - 1) x (2 * u)
      else if \<bar>x\<bar> < 2 ^ (p - 1) * u then ulp_of p (n - 1) x (u / 2)
      else u)"
  by (cases n) simp_all

lemma add_binary64_big: "add_binary64 10000000000000000 1 = 10000000000000000"
proof -
  have "ulp_of 53 2200 10000000000000001 1 = 2"
    by (simp add: ulp_of_step)
  then show ?thesis
    by (simp add: add_binary64_def round_binary64_def round_nearest_even_def Let_def)
qed


lemma acc_image_append:
  "acc_image radd recv base (ws @ ws') m = acc_image radd recv base ws' (acc_image radd recv base ws m)"
proof (induction ws arbitrary: m)
  case Nil
  then show ?case by simp
next
  case (Cons w ws)
  obtain f k off where w: "w = (f, k, off)" by (cases w)
  show ?case unfolding w by (simp only: append_Cons acc_image.simps Cons.IH)
qed

lemma acc_image_shift:
  "acc_image radd recv 0 (map (\<lambda>(f, k, off). (f, k, base + off)) ws) m = acc_image radd recv base ws m"
proof (induction ws arbitrary: m)
  case Nil
  then show ?case by simp
next
  case (Cons w ws)
  obtain f k off where w: "w = (f, k, off)" by (cases w)
  show ?case unfolding w
    by (simp only: list.map case_prod_conv acc_image.simps Cons.IH add_0)
qed

lemma acc_image_fold:
  "acc_image radd recv 0 ws m f k =
     foldl radd (m f k) (map (\<lambda>(f', k', off). recv off) (filter (\<lambda>(f', k', off). f' = f \<and> k' = k) ws))"
proof (induction ws rule: rev_induct)
  case Nil
  then show ?case by simp
next
  case (snoc w ws)
  obtain f' k' off' where w: "w = (f', k', off')" by (cases w)
  show ?case using snoc.IH by (auto simp: w acc_image_snoc)
qed

lemma unpack_plan_snoc:
  "unpack_plan xf fd dx dy dz (ms @ [(g, base)]) =
     unpack_plan xf fd dx dy dz ms @ block_writes_of xf fd dx dy dz g base"
  by (simp add: unpack_plan_def)

lemma img_inv_cong:
  "dom s' = dom s \<Longrightarrow> calls s' = calls s \<Longrightarrow> img_inv radd d xf fd s' = img_inv radd d xf fd s"
  by (simp add: img_inv_def)

lemma img_step:
  assumes inv: "img_inv radd d xf fd s"
    and c: "map (\<lambda>c. (c_guard c, c_offset c)) (calls s')
              = map (\<lambda>c. (c_guard c, c_offset c)) (calls s) @ [(g, a)]"
    and d': "dom s' = (dom s)\<lparr>member := acc_image radd (commDataRecv (dom s)) a ws (member (dom s))\<rparr>"
    and ws: "block_writes_of xf fd (sizeX d + 1) (sizeY d + 1) (sizeZ d + 1) g a
               = map (\<lambda>(f, k, off). (f, k, a + off)) ws"
  shows "img_inv radd d xf fd s'"
proof -
  let ?P = "unpack_plan xf fd (sizeX d + 1) (sizeY d + 1) (sizeZ d + 1)
              (map (\<lambda>c. (c_guard c, c_offset c)) (calls s))"
  from inv have e: "dom s = d\<lparr>member := acc_image radd (commDataRecv d) 0 ?P (member d)\<rparr>"
    by (simp add: img_inv_def)
  have p: "unpack_plan xf fd (sizeX d + 1) (sizeY d + 1) (sizeZ d + 1)
              (map (\<lambda>c. (c_guard c, c_offset c)) (calls s'))
           = ?P @ map (\<lambda>(f, k, off). (f, k, a + off)) ws"
    unfolding c by (simp add: unpack_plan_snoc ws)
  show ?thesis
    unfolding img_inv_def p acc_image_append acc_image_shift d'
    by (subst (1 2 3) e) simp
qed


lemma consume_plane_img:
  assumes "img_inv radd d xf fd s" "length g \<noteq> 3"
  shows "img_inv radd d xf fd (consume_plane fl xf fd (accumulate radd)
            (sizeX d + 1) (sizeY d + 1) (sizeZ d + 1) mpc g en s)"
proof (cases "holds fl g \<and> en")
  case True
  show ?thesis
    by (rule img_step [OF assms(1), where g = g and a = "pmsg s * mpc"
          and ws = "rel_writes xf fd (region_of (sizeX d + 1) (sizeY d + 1) (sizeZ d + 1) g)"])
       (simp_all add: True assms(2) consume_plane_def unpack_recv_def wait_recv_def
          unpack_accumulate_eq block_writes_of_def)
next
  case False
  then show ?thesis unfolding consume_plane_def using assms(1) by (simp only: if_False)
qed

lemma consume_edge_img:
  assumes "img_inv radd d xf fd s" "length g \<noteq> 3"
  shows "img_inv radd d xf fd (consume_edge fl xf fd (accumulate radd)
            (sizeX d + 1) (sizeY d + 1) (sizeZ d + 1) mpc mec g en s)"
proof (cases "holds fl g \<and> en")
  case True
  show ?thesis
    by (rule img_step [OF assms(1), where g = g and a = "pmsg s * mpc + emsg s * mec"
          and ws = "rel_writes xf fd (region_of (sizeX d + 1) (sizeY d + 1) (sizeZ d + 1) g)"])
       (simp_all add: True assms(2) consume_edge_def unpack_recv_def wait_recv_def
          unpack_accumulate_eq block_writes_of_def)
next
  case False
  then show ?thesis unfolding consume_edge_def using assms(1) by (simp only: if_False)
qed

lemma consume_corner_img:
  assumes "img_inv radd d xf fd s" "length g = 3"
  shows "img_inv radd d xf fd (consume_corner fl xf fd (accumulate radd)
            (sizeX d + 1) (sizeY d + 1) (sizeZ d + 1) mpc mec pad g en s)"
proof (cases "holds fl g \<and> en")
  case True
  show ?thesis
    by (rule img_step [OF assms(1), where g = g and a = "pmsg s * mpc + emsg s * mec + cmsg s * pad"
          and ws = "corner_writes xf fd (corner_of (sizeX d + 1) (sizeY d + 1) (sizeZ d + 1) g)"])
       (simp_all add: True assms(2) consume_corner_def Let_def wait_recv_def
          corner_accumulate_eq block_writes_of_def)
next
  case False
  then show ?thesis unfolding consume_corner_def using assms(1) by (simp only: if_False)
qed

lemma img_inv_init: "img_inv radd d xf fd (init_state d)"
  by (simp add: img_inv_def unpack_plan_def)

lemma consume_all_img:
  "img_inv radd d xf fd (consume_all pad d xf fd (accumulate radd) doRecv)"
  unfolding consume_all_def Let_def
  apply (rule seq_inv [where I = "img_inv radd d xf fd"])
   prefer 2 apply (rule img_inv_init)
  subgoal for f s
    apply (simp only: in_set_if set_simps set_append insert_iff empty_iff Un_iff)
    apply (elim disjE conjE FalseE; hypsubst;
           (rule consume_plane_img consume_edge_img consume_corner_img);
           (assumption | simp))
    done
  done


lemma consume_all_log:
  "map (\<lambda>c. (c_guard c, c_offset c)) (calls (consume_all pad d xf fd act doRecv))
     = layout (boundaryFlag d) (xf * maxPlaneSize d) (xf * maxEdgeSize d) pad
         (if doRecv then recv_order else upper_guards) 0 0 0"
  apply (cases doRecv;
         cases "boundaryFlag d RowMin"; cases "boundaryFlag d RowMax"; cases "boundaryFlag d ColMin";
         cases "boundaryFlag d ColMax"; cases "boundaryFlag d PlaneMin"; cases "boundaryFlag d PlaneMax")
  apply (simp_all add: consume_all_def Let_def seq_def recv_order_def upper_guards_def
                       del: boundaryFlag.simps)
  done


lemma consume_all_member:
  assumes "numRanks d \<noteq> 1"
  shows "dom (consume_all pad d xf fd (accumulate radd) doRecv) =
           d\<lparr>member := (\<lambda>f k. foldl radd (member d f k) (arrivals pad d xf fd doRecv f k))\<rparr>"
proof -
  have "acc_image radd (commDataRecv d) 0
          (unpack_plan xf fd (sizeX d + 1) (sizeY d + 1) (sizeZ d + 1) (consumed pad d xf doRecv))
          (member d)
        = (\<lambda>f k. foldl radd (member d f k) (arrivals pad d xf fd doRecv f k))"
    by (intro ext) (simp add: acc_image_fold arrivals_def)
  then show ?thesis
    using consume_all_img [of radd d xf fd pad doRecv] assms
    unfolding img_inv_def consume_all_log consumed_def by simp
qed

lemma boundaryFlag_member: "boundaryFlag (d\<lparr>member := m\<rparr>) = boundaryFlag d"
proof
  fix F show "boundaryFlag (d\<lparr>member := m\<rparr>) F = boundaryFlag d F" by (cases F) simp_all
qed

lemma arrivals_member [simp]:
  "arrivals pad (d\<lparr>member := m\<rparr>) xf fd doRecv f k = arrivals pad d xf fd doRecv f k"
  by (simp add: arrivals_def consumed_def boundaryFlag_member)

lemma CommSBN_member:
  "dom (CommSBN pad radd d xf fd) =
     d\<lparr>member := (\<lambda>f k. foldl radd (member d f k) (arrivals pad d xf fd True f k))\<rparr>"
proof (cases "numRanks d = 1")
  case True
  then show ?thesis
    by (simp add: CommSBN_def arrivals_def consumed_def unpack_plan_def)
next
  case False
  then show ?thesis by (simp add: CommSBN_def consume_all_member)
qed

lemma foldl_plus: "foldl (+) (a :: real) vs = a + sum_list vs"
  by (induction vs arbitrary: a) simp_all

text \<open>
  Claim C4. \<open>CommSBN\<close> adds, with the rounding addition \<open>radd\<close> of \<open>Real_t\<close>: after one call,
  every cell holds its initial value \<open>v0\<close> with the buffer values of all the messages that
  cover it added one after the other, in the order of the traversal; a second call on the
  result, with the same receive buffer, adds the same values again. For a cell one message
  covers once, with value \<open>v\<close>, that is \<open>radd (radd v0 v) v\<close>. When the addition is exact the
  cell holds \<open>v0 + 2 v\<close> (\<open>v\<close> the sum of the values that arrive); with the addition of
  \<open>double\<close> it need not.
\<close>

theorem CommSBN_adds_with_rounding:
  "member (dom (CommSBN pad radd d xf fd)) f k
     = foldl radd (member d f k) (arrivals pad d xf fd True f k)
   \<and> member (dom (CommSBN pad radd (dom (CommSBN pad radd d xf fd)) xf fd)) f k
     = foldl radd (foldl radd (member d f k) (arrivals pad d xf fd True f k))
         (arrivals pad d xf fd True f k)
   \<and> member (dom (CommSBN pad (+) (dom (CommSBN pad (+) d xf fd)) xf fd)) f k
     = member d f k + 2 * sum_list (arrivals pad d xf fd True f k)"
  by (simp add: CommSBN_member foldl_plus)

lemma octant_consumed:
  "consumed 16 octant 1 True =
     [([PlaneMin], 0), ([RowMax], 4), ([ColMin], 8), ([ColMin, PlaneMin], 12),
      ([RowMax, ColMin], 14), ([RowMax, PlaneMin], 16), ([RowMax, ColMin, PlaneMin], 18)]"
  by (simp add: consumed_def recv_order_def octant_def)

lemma octant_arrivals:
  "arrivals 16 octant 1 (\<lambda>fi. M_other 0) True (M_other 0) 7 = [1]"
  "arrivals 16 octant 1 (\<lambda>fi. M_other 0) True (M_other 0) 2 = [1, 1, 1, 1, 1, 1, 1]"
  unfolding arrivals_def octant_consumed
  by (simp_all add: unpack_plan_def block_writes_of_def rel_writes_def corner_writes_def
        region_of_def corner_of_def octant_def eval_nat_numeral)

lemma add_binary64_exact: "add_binary64 0 1 = 1" "add_binary64 1 1 = 2"
proof -
  have u1: "ulp_of 53 2200 1 1 = 1 / 4503599627370496"
    by (simp add: ulp_of_step)
  have u2: "ulp_of 53 2200 2 1 = 1 / 2251799813685248"
    by (simp add: ulp_of_step)
  show "add_binary64 0 1 = 1" "add_binary64 1 1 = 2"
    by (simp_all add: add_binary64_def round_binary64_def round_nearest_even_def Let_def u1 u2)
qed

theorem CommSBN_adds_with_rounding_witness:
  "member octant (M_other 0) 7 = 0
   \<and> arrivals 16 octant 1 (\<lambda>fi. M_other 0) True (M_other 0) 7 = [1]
   \<and> member (dom (CommSBN 16 (+) octant 1 (\<lambda>fi. M_other 0))) (M_other 0) 7 = 1
   \<and> member (dom (CommSBN 16 (+) (dom (CommSBN 16 (+) octant 1 (\<lambda>fi. M_other 0))) 1
        (\<lambda>fi. M_other 0))) (M_other 0) 7 = 2
   \<and> member (dom (CommSBN 16 add_binary64 (dom (CommSBN 16 add_binary64 octant 1
        (\<lambda>fi. M_other 0))) 1 (\<lambda>fi. M_other 0))) (M_other 0) 7 = 2
   \<and> member (dom (CommSBN 16 (+) (dom (CommSBN 16 (+) octant 1 (\<lambda>fi. M_other 0))) 1
        (\<lambda>fi. M_other 0))) (M_other 0) 2 = 14"
proof -
  have v0: "member octant (M_other 0) 7 = 0" "member octant (M_other 0) 2 = 0"
    by (simp_all add: octant_def)
  note t = CommSBN_adds_with_rounding [where pad = 16 and d = octant and xf = 1
      and fd = "\<lambda>fi. M_other 0" and f = "M_other 0"]
  from t [where radd = "(+)" and k = 7] t [where radd = add_binary64 and k = 7]
    t [where radd = "(+)" and k = 2]
  show ?thesis
    by (simp add: octant_arrivals v0 add_binary64_exact)
qed

theorem second_unpack_lost_to_rounding_counterexample:
  "member (octant\<lparr>member := \<lambda>f k. 10000000000000000\<rparr>) (M_other 0) 7 = 10000000000000000
   \<and> arrivals 16 (octant\<lparr>member := \<lambda>f k. 10000000000000000\<rparr>) 1 (\<lambda>fi. M_other 0) True
        (M_other 0) 7 = [1]
   \<and> member (dom (CommSBN 16 add_binary64
        (dom (CommSBN 16 add_binary64 (octant\<lparr>member := \<lambda>f k. 10000000000000000\<rparr>) 1
           (\<lambda>fi. M_other 0))) 1 (\<lambda>fi. M_other 0))) (M_other 0) 7 = 10000000000000000
   \<and> (10000000000000000 :: real) \<noteq> 10000000000000000 + 2 * 1"
  by (simp add: CommSBN_member octant_arrivals add_binary64_big)


subsection \<open>The element exchange\<close>

















subsection \<open>The position and velocity exchange\<close>

lemma posvel_fields_range:
  "0 \<le> fi \<Longrightarrow> fi < 6 \<Longrightarrow> posvel_fields fi \<in> {M_x, M_y, M_z, M_xd, M_yd, M_zd}"
proof -
  assume "0 \<le> fi" "fi < 6"
  then have "fi = 0 \<or> fi = 1 \<or> fi = 2 \<or> fi = 3 \<or> fi = 4 \<or> fi = 5" by linarith
  then show ?thesis by (auto simp: posvel_fields_def)
qed

lemma store_frame:
  assumes e: "d1 = d\<lparr>member := member d1\<rparr>"
    and fr: "\<forall>f k. member d1 f k \<noteq> member d f k \<longrightarrow> f \<in> F \<and> k \<in> S"
    and ws: "\<And>f k off. (f, k, off) \<in> set ws \<Longrightarrow> f \<in> F \<and> k \<in> S"
    and d2: "d2 = d1\<lparr>member := ow_image recv base ws (member d1)\<rparr>"
  shows "d2 = d\<lparr>member := member d2\<rparr>
     \<and> (\<forall>f k. member d2 f k \<noteq> member d f k \<longrightarrow> f \<in> F \<and> k \<in> S)"
proof -
  from e obtain m where m: "d1 = d\<lparr>member := m\<rparr>" ..
  have 1: "d2 = d\<lparr>member := member d2\<rparr>" unfolding d2 m by simp
  have 2: "f \<in> F \<and> k \<in> S" if ne: "member d2 f k \<noteq> member d f k" for f k
  proof (rule ccontr)
    assume out: "\<not> (f \<in> F \<and> k \<in> S)"
    then have "(f, k, off) \<notin> set ws" for off using ws by blast
    then have "ow_image recv base ws (member d1) f k = member d1 f k"
      by (rule ow_image_other)
    then have "member d2 f k = member d1 f k" by (simp add: d2)
    moreover from fr out have "member d1 f k = member d f k" by blast
    ultimately show False using ne by simp
  qed
  from 1 2 show ?thesis by blast
qed

lemma stored_block:
  "g \<in> set upper_guards \<Longrightarrow> holds (boundaryFlag d) g \<Longrightarrow> k \<in> block_cells (sizeX d + 1) (sizeY d + 1) (sizeZ d + 1) g
     \<Longrightarrow> k \<in> stored d"
  unfolding stored_def by blast

lemma sync_unpack:
  assumes g: "g \<in> set upper_guards" "length g \<noteq> 3" "holds (boundaryFlag d) g"
    and inv: "sync_inv d s"
  shows "sync_inv d ((unpack_recv 6 posvel_fields overwrite
            (region_of (sizeX d + 1) (sizeY d + 1) (sizeZ d + 1) g) g a slot s)\<lparr>pmsg := p, emsg := q\<rparr>)"
proof -
  let ?r = "region_of (sizeX d + 1) (sizeY d + 1) (sizeZ d + 1) g"
  let ?d2 = "unpack_block overwrite 6 posvel_fields ?r a (dom s)"
  have ws: "f \<in> {M_x, M_y, M_z, M_xd, M_yd, M_zd} \<and> k \<in> stored d"
    if "(f, k, off) \<in> set (rel_writes 6 posvel_fields ?r)" for f k off
  proof -
    from that obtain fi b where fi: "0 \<le> fi" "fi < 6" and bk: "(b, k) \<in> set (cells ?r)"
      and f: "f = posvel_fields fi"
      unfolding rel_writes_mem by blast
    from bk have "k \<in> snd ` set (cells ?r)" by (rule rev_image_eqI) simp
    then have "k \<in> block_cells (sizeX d + 1) (sizeY d + 1) (sizeZ d + 1) g"
      using g(2) by (simp add: block_cells_def)
    then have "k \<in> stored d" by (rule stored_block [OF g(1) g(3)])
    with posvel_fields_range [OF fi] f show ?thesis by simp
  qed
  from inv have i: "dom s = d\<lparr>member := member (dom s)\<rparr>"
    "\<forall>f k. member (dom s) f k \<noteq> member d f k
            \<longrightarrow> f \<in> {M_x, M_y, M_z, M_xd, M_yd, M_zd} \<and> k \<in> stored d"
    "list_all (\<lambda>c. c_kind c = Wait \<and> c_guard c \<in> set upper_guards
                       \<and> holds (boundaryFlag d) (c_guard c)) (calls s)"
    by (simp_all add: sync_inv_def)
  note fr = store_frame [OF i(1) i(2) ws unpack_overwrite_eq]
  show ?thesis
    unfolding sync_inv_def using fr i(3) g
    by (simp add: unpack_recv_def wait_recv_def)
qed


lemma sync_corner:
  assumes g: "g \<in> set upper_guards" "length g = 3" "holds (boundaryFlag d) g"
    and inv: "sync_inv d s"
  shows "sync_inv d ((wait_recv g a slot s)
           \<lparr>dom := corner_loop 6 posvel_fields overwrite a
                     (corner_of (sizeX d + 1) (sizeY d + 1) (sizeZ d + 1) g) (dom s), cmsg := c\<rparr>)"
proof -
  let ?idx = "corner_of (sizeX d + 1) (sizeY d + 1) (sizeZ d + 1) g"
  have ws: "f \<in> {M_x, M_y, M_z, M_xd, M_yd, M_zd} \<and> k \<in> stored d"
    if "(f, k, off) \<in> set (corner_writes 6 posvel_fields ?idx)" for f k off
  proof -
    from that have fi: "0 \<le> off" "off < 6" and k: "k = ?idx" and f: "f = posvel_fields off"
      unfolding corner_writes_mem by simp_all
    have "k \<in> block_cells (sizeX d + 1) (sizeY d + 1) (sizeZ d + 1) g"
      using g(2) k by (simp add: block_cells_def)
    then have "k \<in> stored d" by (rule stored_block [OF g(1) g(3)])
    with posvel_fields_range [OF fi] f show ?thesis by simp
  qed
  from inv have i: "dom s = d\<lparr>member := member (dom s)\<rparr>"
    "\<forall>f k. member (dom s) f k \<noteq> member d f k
            \<longrightarrow> f \<in> {M_x, M_y, M_z, M_xd, M_yd, M_zd} \<and> k \<in> stored d"
    "list_all (\<lambda>c. c_kind c = Wait \<and> c_guard c \<in> set upper_guards
                       \<and> holds (boundaryFlag d) (c_guard c)) (calls s)"
    by (simp_all add: sync_inv_def)
  note fr = store_frame [OF i(1) i(2) ws corner_overwrite_eq]
  show ?thesis
    unfolding sync_inv_def using fr i(3) g
    by (simp add: wait_recv_def)
qed

lemma sync_inv_cong:
  "dom s' = dom s \<Longrightarrow> calls s' = calls s \<Longrightarrow> sync_inv d s' = sync_inv d s"
  by (simp add: sync_inv_def)

lemma consume_plane_sync:
  assumes "en \<Longrightarrow> g \<in> set upper_guards" "length g \<noteq> 3" "sync_inv d s"
  shows "sync_inv d (consume_plane (boundaryFlag d) 6 posvel_fields overwrite
            (sizeX d + 1) (sizeY d + 1) (sizeZ d + 1) mpc g en s)"
proof (cases "holds (boundaryFlag d) g \<and> en")
  case True
  then have "g \<in> set upper_guards" "holds (boundaryFlag d) g" using assms(1) by simp_all
  note t = sync_unpack [OF this(1) assms(2) this(2) assms(3), where a = "pmsg s * mpc"
      and slot = "pmsg s" and p = 0 and q = 0]
  show ?thesis
    by (rule iffD2 [OF sync_inv_cong t])
       (simp_all add: True consume_plane_def unpack_recv_def wait_recv_def)
next
  case False
  then show ?thesis unfolding consume_plane_def using assms(3) by (simp only: if_False)
qed

lemma consume_edge_sync:
  assumes "en \<Longrightarrow> g \<in> set upper_guards" "length g \<noteq> 3" "sync_inv d s"
  shows "sync_inv d (consume_edge (boundaryFlag d) 6 posvel_fields overwrite
            (sizeX d + 1) (sizeY d + 1) (sizeZ d + 1) mpc mec g en s)"
proof (cases "holds (boundaryFlag d) g \<and> en")
  case True
  then have "g \<in> set upper_guards" "holds (boundaryFlag d) g" using assms(1) by simp_all
  note t = sync_unpack [OF this(1) assms(2) this(2) assms(3), where a = "pmsg s * mpc + emsg s * mec"
      and slot = "pmsg s + emsg s" and p = 0 and q = 0]
  show ?thesis
    by (rule iffD2 [OF sync_inv_cong t])
       (simp_all add: True consume_edge_def unpack_recv_def wait_recv_def)
next
  case False
  then show ?thesis unfolding consume_edge_def using assms(3) by (simp only: if_False)
qed

lemma consume_corner_sync:
  assumes "en \<Longrightarrow> g \<in> set upper_guards" "length g = 3" "sync_inv d s"
  shows "sync_inv d (consume_corner (boundaryFlag d) 6 posvel_fields overwrite
            (sizeX d + 1) (sizeY d + 1) (sizeZ d + 1) mpc mec pad g en s)"
proof (cases "holds (boundaryFlag d) g \<and> en")
  case True
  then have "g \<in> set upper_guards" "holds (boundaryFlag d) g" using assms(1) by simp_all
  note t = sync_corner [OF this(1) assms(2) this(2) assms(3),
      where a = "pmsg s * mpc + emsg s * mec + cmsg s * pad"
      and slot = "pmsg s + emsg s + cmsg s" and c = 0]
  show ?thesis
    by (rule iffD2 [OF sync_inv_cong t])
       (simp_all add: True consume_corner_def Let_def wait_recv_def)
next
  case False
  then show ?thesis unfolding consume_corner_def using assms(3) by (simp only: if_False)
qed

lemma sync_inv_init: "sync_inv d (init_state d)"
  by (simp add: sync_inv_def init_state_def)

lemma CommSyncPosVel_inv: "sync_inv d (CommSyncPosVel pad d)"
proof (cases "numRanks d = 1")
  case True
  then show ?thesis by (simp add: CommSyncPosVel_def sync_inv_init)
next
  case False
  show ?thesis
    unfolding CommSyncPosVel_def consume_all_def Let_def
    apply (simp only: False if_False)
    apply (rule seq_inv [where I = "sync_inv d"])
     prefer 2 apply (rule sync_inv_init)
    subgoal for f s
      apply (simp only: in_set_if set_simps set_append insert_iff empty_iff Un_iff)
      apply (elim disjE conjE FalseE; hypsubst;
             (rule consume_plane_sync consume_edge_sync consume_corner_sync);
             (assumption | simp add: upper_guards_def))
      done
    done
qed


lemma octant_sync:
  "map c_guard (calls (CommSyncPosVel 16 octant)) = [[RowMax], [RowMax, ColMin]]
   \<and> member (dom (CommSyncPosVel 16 octant)) M_x 2 = 1
   \<and> member (dom (CommSyncPosVel 16 octant)) M_x 6 = 1"
  unfolding CommSyncPosVel_def consume_all_def Let_def
  apply (simp only: octant_sizes octant_flags if_False if_True simp_thms append_Nil append_Cons)
  apply (simp add: seq_def consume_plane_def consume_edge_def consume_corner_def
       unpack_recv_def wait_recv_def log_call_def init_state_def unpack_overwrite_eq
       octant_flags del: boundaryFlag.simps)
  apply (simp add: rel_writes_def region_of_def posvel_fields_def eval_nat_numeral)
  apply (simp add: octant_def)
  done


text \<open>
  Claim C10. \<open>CommSyncPosVel\<close> runs no block that tests \<open>doRecv\<close>: every call it logs is a
  \<open>Wait\<close> for a guard that does not test it and whose flags hold. A cell it changes belongs to
  one of the six fields \<open>x, y, z, xd, yd, zd\<close> and to the region of one of the blocks it runs;
  nothing else of the domain changes. (A region whose own block tests \<open>doRecv\<close> is not left
  unchanged where it meets the region of a block that runs.)
\<close>

theorem CommSyncPosVel_stores_only_unguarded_regions:
  "list_all (\<lambda>c. c_kind c = Wait \<and> c_guard c \<in> set upper_guards
                  \<and> holds (boundaryFlag d) (c_guard c)) (calls (CommSyncPosVel pad d))
   \<and> (\<forall>f k. member (dom (CommSyncPosVel pad d)) f k \<noteq> member d f k
          \<longrightarrow> f \<in> {M_x, M_y, M_z, M_xd, M_yd, M_zd} \<and> k \<in> stored d)
   \<and> dom (CommSyncPosVel pad d) = d\<lparr>member := member (dom (CommSyncPosVel pad d))\<rparr>"
  using CommSyncPosVel_inv [of d pad] unfolding sync_inv_def by blast

lemma octant_stored: "stored octant = {2, 3, 6, 7}"
proof -
  have g: "{g \<in> set upper_guards. holds (boundaryFlag octant) g} = {[RowMax], [RowMax, ColMin]}"
    by (auto simp: upper_guards_def octant_flags simp del: boundaryFlag.simps)
  show ?thesis
    unfolding stored_def g octant_sizes
    by (simp add: block_cells_def region_of_def eval_nat_numeral) auto
qed

theorem CommSyncPosVel_stores_only_unguarded_regions_witness:
  "map c_guard (calls (CommSyncPosVel 16 octant)) = [[RowMax], [RowMax, ColMin]]
   \<and> member (dom (CommSyncPosVel 16 octant)) M_x 6 = 1
   \<and> member octant M_x 6 = 0
   \<and> 6 \<in> stored octant
   \<and> 0 \<notin> stored octant
   \<and> member (dom (CommSyncPosVel 16 octant)) M_x 0 = member octant M_x 0
   \<and> member (dom (CommSyncPosVel 16 octant)) M_delv_xi 6 = member octant M_delv_xi 6"
proof -
  note t = CommSyncPosVel_stores_only_unguarded_regions [of octant 16]
  from t have a: "member (dom (CommSyncPosVel 16 octant)) M_x 0 = member octant M_x 0"
    unfolding octant_stored by fastforce
  from t have b: "member (dom (CommSyncPosVel 16 octant)) M_delv_xi 6 = member octant M_delv_xi 6"
    by fastforce
  have c: "member octant M_x 6 = 0" by (simp add: octant_def)
  from a b c octant_sync show ?thesis by (simp add: octant_stored)
qed

theorem guarded_region_overwritten_counterexample:
  "[PlaneMin] \<in> set recv_order \<and> [PlaneMin] \<notin> set upper_guards
   \<and> holds (boundaryFlag octant) [PlaneMin]
   \<and> 2 \<in> block_cells (sizeX octant + 1) (sizeY octant + 1) (sizeZ octant + 1) [PlaneMin]
   \<and> member octant M_x 2 = 0
   \<and> member (dom (CommSyncPosVel 16 octant)) M_x 2 = 1"
proof -
  have "2 \<in> block_cells 2 2 2 [PlaneMin]"
    by (simp add: block_cells_def region_of_def eval_nat_numeral)
  moreover have "member octant M_x 2 = 0" by (simp add: octant_def)
  ultimately show ?thesis
    using octant_sync
    by (simp add: octant_sizes octant_flags recv_order_def upper_guards_def del: boundaryFlag.simps)
qed

end
